theory Spec2Isabelle
  imports Complex_Main
begin

section \<open>Data model\<close>

text \<open>
  The plugin (the last, "enhanced" variant of \<^verbatim>\<open>code.ts\<close>, lines 770-1653) reads text
  layers of a Figma frame, stores them as \<^verbatim>\<open>TextItem\<close>s and writes their characters into
  the text layers of another frame.

  Conventions of the embedding:
  \<^item> indices, counters and percentages are \<open>nat\<close>. A score is an exact rational
    (\<open>rat\<close>): the rounding of IEEE doubles is not modelled for scores, and no statement
    below depends on the value of a score that is not an integer. The percentage passed
    to the progress callback is computed in IEEE double arithmetic, as the code does;
  \<^item> a JavaScript string is a \<open>string\<close>; \<^verbatim>\<open>toLowerCase\<close> and the white space class
    \<^verbatim>\<open>\s\<close> are modelled on ASCII;
  \<^item> a host property that may hold the symbol \<^verbatim>\<open>figma.mixed\<close> has type \<open>'a OrMixed\<close>;
  \<^item> an optional field of an interface (\<^verbatim>\<open>name?: string\<close>) is an \<open>option\<close>;
  \<^item> a thrown exception is the left injection of a sum.
\<close>

datatype 'a OrMixed = Mixed | Plain 'a

datatype FontName = FontName (family: string) (style: string)

text \<open>
  A host text layer (\<^verbatim>\<open>TextNode\<close> of the plugin API), with the properties the code reads
  or writes. \<open>node_rejectsWrite\<close> is the host's behaviour on
  \<^verbatim>\<open>targetNode.characters = ...\<close>: whether that assignment throws (for instance because
  the layer's font is not available).
\<close>

record TextNode =
  node_name :: string
  node_characters :: string
  node_fontSize :: "rat OrMixed"
  node_fontName :: "FontName OrMixed"
  node_textStyleId :: "string OrMixed"
  node_locked :: bool
  node_rejectsWrite :: bool

text \<open>
  A node of the document tree: a text layer (\<^verbatim>\<open>node.type === "TEXT"\<close>, which has no
  children), a frame (\<^verbatim>\<open>node.type === "FRAME"\<close>), a node of another type that has a
  \<^verbatim>\<open>children\<close> property (a group, a component, ...), or a node of another type
  without children.
\<close>

datatype SceneNode =
    TEXT TextNode
  | FRAME "SceneNode list"
  | Container "SceneNode list"
  | Other

text \<open>\<^verbatim>\<open>"children" in node\<close> and \<^verbatim>\<open>node.children\<close>.\<close>

fun children :: "SceneNode \<Rightarrow> SceneNode list option" where
  "children (FRAME cs) = Some cs"
| "children (Container cs) = Some cs"
| "children _ = None"

text \<open>\<^verbatim>\<open>interface TextItem\<close> (lines 790-797).\<close>

record TextItem =
  path :: "nat list"
  name :: "string option"
  characters :: string
  fontSize :: "rat OrMixed option"
  fontName :: "FontName OrMixed option"
  textStyleId :: "string option"

text \<open>\<^verbatim>\<open>interface FrameStructure\<close> (lines 809-814).\<close>

record FrameStructure =
  nodeCount :: nat
  textNodeCount :: nat
  maxDepth :: nat
  layerNames :: "string list"

section \<open>Indexer: \<^verbatim>\<open>indexTextNodes\<close> (lines 906-969)\<close>

text \<open>The local variables of \<^verbatim>\<open>indexTextNodes\<close> that the loop updates.\<close>

record IndexState =
  items :: "TextItem list"
  nodes :: "TextNode list"
  ix_layerNames :: "string list"
  ix_maxDepth :: nat
  ix_nodeCount :: nat

text \<open>The object literal of lines 932-939.\<close>

definition textItemOf :: "nat list \<Rightarrow> TextNode \<Rightarrow> TextItem" where
  "textItemOf p t =
     \<lparr> path = p,
       name = Some (node_name t),
       characters = node_characters t,
       fontSize = Some (node_fontSize t),
       fontName = Some (node_fontName t),
       textStyleId = (case node_textStyleId t of Plain s \<Rightarrow> Some s | Mixed \<Rightarrow> None) \<rparr>"

text \<open>
  Lines 925-944: count the node, track the depth, and record the node if it is a text
  layer.
\<close>

definition visit :: "SceneNode \<Rightarrow> nat list \<Rightarrow> nat \<Rightarrow> IndexState \<Rightarrow> IndexState" where
  "visit node p depth s =
     (let s1 = s\<lparr> ix_nodeCount := ix_nodeCount s + 1,
                  ix_maxDepth := max (ix_maxDepth s) depth \<rparr>
      in case node of
           TEXT t \<Rightarrow> s1\<lparr> items := items s1 @ [textItemOf p t],
                         nodes := nodes s1 @ [t],
                         ix_layerNames := ix_layerNames s1 @ [node_name t] \<rparr>
         | _ \<Rightarrow> s1)"

text \<open>
  Lines 946-955. The stack is a list whose head is the top (the end of the JavaScript
  array). The loop runs \<open>i\<close> from \<open>length - 1\<close> down to \<open>0\<close> and pushes child \<open>i\<close>.
\<close>

definition pushChildren ::
  "SceneNode \<Rightarrow> nat list \<Rightarrow> nat \<Rightarrow> (SceneNode \<times> nat list \<times> nat) list
     \<Rightarrow> (SceneNode \<times> nat list \<times> nat) list" where
  "pushChildren node p depth stack =
     (case children node of
        Some cs \<Rightarrow>
          fold (\<lambda>i st. (cs ! i, p @ [i], depth + 1) # st) (rev [0..<length cs]) stack
      | None \<Rightarrow> stack)"

text \<open>The \<^verbatim>\<open>while (stack.length > 0)\<close> loop of lines 923-956.\<close>

function indexLoop :: "(SceneNode \<times> nat list \<times> nat) list \<Rightarrow> IndexState \<Rightarrow> IndexState" where
  "indexLoop [] s = s"
| "indexLoop ((node, p, depth) # stack) s =
     indexLoop (pushChildren node p depth stack) (visit node p depth s)"
  by pat_completeness auto
termination
proof (relation "measure (\<lambda>(stack, s). sum_list (map (\<lambda>e. Suc (size (fst e))) stack))")
  show "wf (measure (\<lambda>(stack, s). sum_list (map (\<lambda>e. Suc (size (fst e))) stack)))"
    by simp
next
  fix node :: SceneNode and p :: "nat list" and depth :: nat
    and stack :: "(SceneNode \<times> nat list \<times> nat) list" and s :: IndexState
  have pushed: "fold (\<lambda>i st. (f i :: SceneNode \<times> nat list \<times> nat) # st) (rev is) st0
                  = map f is @ st0" for f and "is" :: "nat list" and st0
    by (induction "is" arbitrary: st0 rule: rev_induct) simp_all
  have total: "map (\<lambda>i. Suc (size (cs ! i))) [0..<length cs] = map (\<lambda>c. Suc (size c)) cs"
    for cs :: "SceneNode list"
    by (rule nth_equalityI) simp_all
  have weight: "sum_list (map (\<lambda>c. Suc (size c)) cs) = size_list size cs"
    for cs :: "SceneNode list"
    by (induction cs) simp_all
  have "sum_list (map (\<lambda>e. Suc (size (fst e))) (pushChildren node p depth stack))
          < Suc (size node) + sum_list (map (\<lambda>e. Suc (size (fst e))) stack)"
    by (cases node) (simp_all add: pushChildren_def pushed comp_def total weight)
  then show "((pushChildren node p depth stack, visit node p depth s),
              (node, p, depth) # stack, s)
             \<in> measure (\<lambda>(stack, s). sum_list (map (\<lambda>e. Suc (size (fst e))) stack))"
    by simp
qed

definition indexTextNodes :: "SceneNode \<Rightarrow> IndexState \<times> FrameStructure" where
  "indexTextNodes frameNode =
     (let s = indexLoop [(frameNode, [], 0)]
                \<lparr> items = [], nodes = [], ix_layerNames = [], ix_maxDepth = 0, ix_nodeCount = 0 \<rparr>
      in (s, \<lparr> nodeCount = ix_nodeCount s,
               textNodeCount = length (items s),
               maxDepth = ix_maxDepth s,
               layerNames = ix_layerNames s \<rparr>))"

text \<open>\<^verbatim>\<open>findNodeAtPath\<close> (lines 1138-1152); \<^verbatim>\<open>null\<close> is \<open>None\<close>.\<close>

fun findNodeAtPath :: "SceneNode \<Rightarrow> nat list \<Rightarrow> SceneNode option" where
  "findNodeAtPath node [] = Some node"
| "findNodeAtPath node (i # rest) =
     (case children node of
        Some cs \<Rightarrow> if i < length cs then findNodeAtPath (cs ! i) rest else None
      | None \<Rightarrow> None)"

subsection \<open>The traversal the specification asks for\<close>

text \<open>
  The specification's words for the order of a snapshot: depth first, children in their
  natural left-to-right order, each node's path being its parent's path with its
  zero-based sibling index appended. \<open>dfsLeaves p node\<close> lists the text layers below
  \<open>node\<close> (whose own path is \<open>p\<close>) in that order, each with its path;
  \<open>dfsFrom p i cs\<close> does so for the siblings \<open>cs\<close>, the first of which has index \<open>i\<close>.
\<close>

fun dfsLeaves :: "nat list \<Rightarrow> SceneNode \<Rightarrow> (nat list \<times> TextNode) list"
  and dfsFrom :: "nat list \<Rightarrow> nat \<Rightarrow> SceneNode list \<Rightarrow> (nat list \<times> TextNode) list" where
  "dfsLeaves p (TEXT t) = [(p, t)]"
| "dfsLeaves p (FRAME cs) = dfsFrom p 0 cs"
| "dfsLeaves p (Container cs) = dfsFrom p 0 cs"
| "dfsLeaves p Other = []"
| "dfsFrom p i [] = []"
| "dfsFrom p i (c # cs) = dfsLeaves (p @ [i]) c @ dfsFrom p (Suc i) cs"

text \<open>The number of text-bearing nodes of a subtree.\<close>

fun countTextNodes :: "SceneNode \<Rightarrow> nat" where
  "countTextNodes (TEXT t) = 1"
| "countTextNodes (FRAME cs) = sum_list (map countTextNodes cs)"
| "countTextNodes (Container cs) = sum_list (map countTextNodes cs)"
| "countTextNodes Other = 0"

section \<open>Matcher and applier: \<^verbatim>\<open>mapTextNodes\<close> (lines 972-1117)\<close>

subsection \<open>Scoring\<close>

text \<open>
  \<^verbatim>\<open>calculatePathSimilarity\<close> (lines 1120-1135). \<open>commonPrefix\<close> is the loop of lines
  1126-1132: it counts equal leading elements and stops at the first mismatch or at the
  end of the shorter path.
\<close>

fun commonPrefix :: "nat list \<Rightarrow> nat list \<Rightarrow> nat" where
  "commonPrefix (x # xs) (y # ys) = (if x = y then 1 + commonPrefix xs ys else 0)"
| "commonPrefix _ _ = 0"

definition calculatePathSimilarity :: "nat list \<Rightarrow> nat list \<Rightarrow> rat" where
  "calculatePathSimilarity path1 path2 =
     (if length path1 = 0 \<or> length path2 = 0 then 0
      else of_nat (commonPrefix path1 path2) / of_nat (max (length path1) (length path2)))"

text \<open>
  \<^verbatim>\<open>String.prototype.toLowerCase\<close> and \<^verbatim>\<open>split(/\s+/)\<close> on ASCII. A string is cut at
  every maximal run of white space; a run at the start or at the end of the string leaves
  an empty piece there, as in JavaScript. \<open>splitRun inRun acc cs\<close> scans \<open>cs\<close>, where
  \<open>acc\<close> holds the current piece reversed and \<open>inRun\<close> tells that the previous character
  was white space.
\<close>

definition toLowerCase :: "string \<Rightarrow> string" where
  "toLowerCase s =
     map (\<lambda>c. case map_of (zip ''ABCDEFGHIJKLMNOPQRSTUVWXYZ'' ''abcdefghijklmnopqrstuvwxyz'') c of
                 Some l \<Rightarrow> l | None \<Rightarrow> c) s"

definition isWhiteSpace :: "char \<Rightarrow> bool" where
  "isWhiteSpace c = (c \<in> set [CHR 0x20, CHR 0x09, CHR 0x0A, CHR 0x0B, CHR 0x0C, CHR 0x0D])"

fun splitRun :: "bool \<Rightarrow> string \<Rightarrow> string \<Rightarrow> string list" where
  "splitRun inRun acc [] = [rev acc]"
| "splitRun inRun acc (c # cs) =
     (if isWhiteSpace c then
        (if inRun then splitRun True acc cs else rev acc # splitRun True [] cs)
      else splitRun False (c # acc) cs)"

definition splitWhiteSpace :: "string \<Rightarrow> string list" where
  "splitWhiteSpace s = splitRun False [] s"

text \<open>The six strategies of lines 1000-1037, in the order of the source.\<close>

definition pathMatch :: "TextItem \<Rightarrow> TextItem \<Rightarrow> bool" where
  "pathMatch sourceItem targetItem =
     (length (path sourceItem) = length (path targetItem) \<and>
      list_all (\<lambda>i. path sourceItem ! i = path targetItem ! i) [0..<length (path sourceItem)])"

text \<open>
  \<^verbatim>\<open>sourceItem.name && sourceItem.name === targetItem.name\<close>: an absent or empty name is
  falsy. The same shape is used for \<^verbatim>\<open>textStyleId\<close>.
\<close>

definition sameTruthyString :: "string option \<Rightarrow> string option \<Rightarrow> bool" where
  "sameTruthyString a b = (case a of None \<Rightarrow> False | Some s \<Rightarrow> s \<noteq> [] \<and> b = Some s)"

text \<open>
  Truthiness of \<^verbatim>\<open>fontSize\<close> (a number is falsy when it is 0, the symbol
  \<^verbatim>\<open>figma.mixed\<close> is truthy) and of \<^verbatim>\<open>fontName\<close> (an object or the symbol), and the
  \<^verbatim>\<open>family\<close> property, which is \<^verbatim>\<open>undefined\<close> (\<open>None\<close>) on the symbol.
\<close>

definition truthySize :: "rat OrMixed option \<Rightarrow> bool" where
  "truthySize v = (case v of None \<Rightarrow> False | Some Mixed \<Rightarrow> True | Some (Plain r) \<Rightarrow> r \<noteq> 0)"

definition familyOf :: "FontName OrMixed \<Rightarrow> string option" where
  "familyOf f = (case f of Mixed \<Rightarrow> None | Plain n \<Rightarrow> Some (family n))"

definition fontScore :: "TextItem \<Rightarrow> TextItem \<Rightarrow> rat" where
  "fontScore sourceItem targetItem =
     (case (fontName sourceItem, fontName targetItem) of
        (Some sf, Some tf) \<Rightarrow>
          if truthySize (fontSize sourceItem) \<and> truthySize (fontSize targetItem) then
            (if familyOf sf = familyOf tf then
               200 + (if fontSize sourceItem = fontSize targetItem then 100 else 0)
             else 0)
          else 0
      | _ \<Rightarrow> 0)"

definition contentScore :: "TextItem \<Rightarrow> TextItem \<Rightarrow> rat" where
  "contentScore sourceItem targetItem =
     (if length (characters sourceItem) > 10 \<and> length (characters targetItem) > 10 then
        (let sourceWords = splitWhiteSpace (toLowerCase (characters sourceItem));
             targetWords = splitWhiteSpace (toLowerCase (characters targetItem));
             commonWords = filter (\<lambda>word. word \<in> set targetWords) sourceWords
         in of_nat (length commonWords) * 10)
      else 0)"

definition computeScore :: "TextItem \<Rightarrow> TextItem \<Rightarrow> rat" where
  "computeScore sourceItem targetItem =
     (if pathMatch sourceItem targetItem then 1000 else 0)
     + (if sameTruthyString (name sourceItem) (name targetItem) then 500 else 0)
     + fontScore sourceItem targetItem
     + (if sameTruthyString (textStyleId sourceItem) (textStyleId targetItem) then 300 else 0)
     + contentScore sourceItem targetItem
     + calculatePathSimilarity (path sourceItem) (path targetItem) * 50"

text \<open>One entry of a row of the scoring matrix.\<close>

record ScoreEntry =
  sourceIndex :: nat
  targetIndex :: nat
  score :: rat

text \<open>
  The body of \<^verbatim>\<open>sourceItems.forEach\<close> (lines 992-1047): the candidates of one source
  item, in target order, those with a positive score only, then sorted by descending
  score. \<^verbatim>\<open>Array.prototype.sort\<close> is stable, and so is \<open>sort_key\<close>.
\<close>

definition scoreRow :: "nat list \<Rightarrow> TextItem list \<Rightarrow> nat \<Rightarrow> TextItem \<Rightarrow> ScoreEntry list" where
  "scoreRow usedIndices targetItems srcIndex sourceItem =
     sort_key (\<lambda>e. - score e)
       (filter (\<lambda>e. score e > 0)
          (map (\<lambda>j. \<lparr> sourceIndex = srcIndex, targetIndex = j,
                        score = computeScore sourceItem (targetItems ! j) \<rparr>)
               (filter (\<lambda>j. j \<notin> set usedIndices) [0..<length targetItems])))"

definition createScoringMatrix ::
  "nat list \<Rightarrow> TextItem list \<Rightarrow> TextItem list \<Rightarrow> ScoreEntry list list" where
  "createScoringMatrix usedIndices sourceItems targetItems =
     map (\<lambda>i. scoreRow usedIndices targetItems i (sourceItems ! i)) [0..<length sourceItems]"

subsection \<open>Font loading: \<^verbatim>\<open>ensureFontsLoaded\<close> (lines 839-878)\<close>

text \<open>
  An exception: \<open>Error msg\<close> is \<^verbatim>\<open>new Error(msg)\<close> thrown by the plugin, \<open>HostError\<close> a
  rejection that comes from the host (\<^verbatim>\<open>figma.loadFontAsync\<close>, \<^verbatim>\<open>figma.clientStorage\<close>).
\<close>

datatype Error = Error string | HostError | CallbackError

text \<open>
  \<^verbatim>\<open>Math.round(((i + 1) / total) * 100)\<close> in IEEE 754 double arithmetic. A positive double
  is a pair \<open>(m, k)\<close> that stands for \<open>m * 2 ^ k\<close>, with a mantissa \<open>m\<close> of 53 bits. Only
  normal numbers are modelled: the quotient of two array indices neither overflows nor
  underflows.

  \<open>bitLength n\<close> is the number of binary digits of \<open>n\<close>; \<open>roundHalfEven a b\<close> is the integer
  nearest to \<open>a / b\<close>, the even one of two that are equally near; \<open>scaled a b k\<close> is the
  fraction \<open>a / b * 2 ^ k\<close>, as numerator and denominator.
\<close>

fun bitLength :: "nat \<Rightarrow> nat" where
  "bitLength n = (if n = 0 then 0 else Suc (bitLength (n div 2)))"

declare bitLength.simps [simp del]

definition roundHalfEven :: "nat \<Rightarrow> nat \<Rightarrow> nat" where
  "roundHalfEven a b =
     (let q = a div b; r = a mod b in
      if 2 * r < b then q
      else if b < 2 * r then q + 1
      else if even q then q else q + 1)"

definition scaled :: "nat \<Rightarrow> nat \<Rightarrow> int \<Rightarrow> nat \<times> nat" where
  "scaled a b k = (if 0 \<le> k then (a * 2 ^ nat k, b) else (a, b * 2 ^ nat (- k)))"

text \<open>
  The double nearest to \<open>a / b\<close> (round to nearest, ties to even), for positive \<open>a\<close> and
  \<open>b\<close>: with \<open>e0\<close> the difference of the bit lengths, \<open>a / b\<close> lies between
  \<open>2 ^ (e0 - 1)\<close> and \<open>2 ^ (e0 + 1)\<close>, so its binary exponent \<open>e\<close> is \<open>e0\<close> or \<open>e0 - 1\<close>; the
  mantissa is \<open>a / b * 2 ^ (52 - e)\<close>, rounded.
\<close>

definition nearestDouble :: "nat \<Rightarrow> nat \<Rightarrow> nat \<times> int" where
  "nearestDouble a b =
     (let e0 = int (bitLength a) - int (bitLength b);
          e = (case scaled a b (- e0) of (a', b') \<Rightarrow> if b' \<le> a' then e0 else e0 - 1);
          m = (case scaled a b (52 - e) of (a', b') \<Rightarrow> roundHalfEven a' b')
      in (m, e - 52))"

text \<open>
  The product of a double and a positive integer constant, rounded to a double, and
  \<^verbatim>\<open>Math.round\<close>, which is exact: the integer nearest to its argument, the larger one of
  two that are equally near.
\<close>

definition timesDouble :: "nat \<times> int \<Rightarrow> nat \<Rightarrow> nat \<times> int" where
  "timesDouble x c = (case x of (m, k) \<Rightarrow> case scaled (m * c) 1 k of (a, b) \<Rightarrow> nearestDouble a b)"

definition mathRound :: "nat \<times> int \<Rightarrow> nat" where
  "mathRound x = (case x of (m, k) \<Rightarrow> case scaled m 1 k of (a, b) \<Rightarrow> (2 * a + b) div (2 * b))"

definition percentOf :: "nat \<Rightarrow> nat \<Rightarrow> nat" where
  "percentOf i n = mathRound (timesDouble (nearestDouble (i + 1) n) 100)"

text \<open>
  The optional parameter \<^verbatim>\<open>onProgress\<close>. A callback is described by what the program can
  observe of it: whether a call throws, given the percentages of the calls made before
  and the percentage of this call.
\<close>

type_synonym Callback = "nat list \<Rightarrow> nat \<Rightarrow> bool"

text \<open>
  The set of distinct fonts of the nodes, in insertion order (lines 842-847); a node whose
  \<^verbatim>\<open>fontName\<close> is \<^verbatim>\<open>figma.mixed\<close> adds nothing.
\<close>

definition uniqueFonts :: "TextNode list \<Rightarrow> FontName list" where
  "uniqueFonts textNodes =
     fold (\<lambda>node acc. case node_fontName node of
                        Plain f \<Rightarrow> if f \<in> set acc then acc else acc @ [f]
                      | Mixed \<Rightarrow> acc)
          textNodes []"

text \<open>
  \<open>loadFont f\<close> tells whether \<^verbatim>\<open>figma.loadFontAsync(f)\<close> resolves. The loads run
  concurrently and \<^verbatim>\<open>Promise.all\<close> rejects as soon as one of its promises does, so a font
  that cannot be loaded makes \<^verbatim>\<open>ensureFontsLoaded\<close> throw, and so does a callback that
  throws in a \<^verbatim>\<open>then\<close> handler (lines 862-867). On success the result is the list of
  percentages passed to \<^verbatim>\<open>onProgress\<close>, one per font. The calls are taken in the order
  in which the loads were issued; the order in which the host settles them, and the calls
  made before a rejection, are not modelled.
\<close>

fun notifyFonts :: "Callback \<Rightarrow> nat \<Rightarrow> nat list \<Rightarrow> nat list \<Rightarrow> Error + nat list" where
  "notifyFonts throws n [] calls = Inr calls"
| "notifyFonts throws n (index # rest) calls =
     (let percent = percentOf index n in
      if throws calls percent then Inl CallbackError
      else notifyFonts throws n rest (calls @ [percent]))"

definition ensureFontsLoaded ::
  "Callback option \<Rightarrow> (FontName \<Rightarrow> bool) \<Rightarrow> TextNode list \<Rightarrow> Error + nat list" where
  "ensureFontsLoaded onProgress loadFont textNodes =
     (let fontArray = uniqueFonts textNodes in
      if fontArray = [] then Inr []
      else if \<not> list_all loadFont fontArray then Inl HostError
      else case onProgress of
             None \<Rightarrow> Inr []
           | Some throws \<Rightarrow> notifyFonts throws (length fontArray) [0..<length fontArray] [])"

subsection \<open>The mapping loop (lines 1054-1113)\<close>

text \<open>
  One element of \<^verbatim>\<open>details\<close>. The source pushes a message string; the constructor is
  the kind of message, in the order of the \<^verbatim>\<open>details.push\<close> calls of the loop, and
  carries the index of the target selected for the source item (the message names that
  target by its layer name or not at all) and, for a transfer, the score printed in the
  message. The text of the messages is not modelled. \<open>FailedUpdate\<close> is the message of the
  \<^verbatim>\<open>catch\<close> block, whatever was thrown inside the \<^verbatim>\<open>try\<close>.
\<close>

datatype Detail =
    NoSuitableTarget
  | AllTargetsUsed
  | LockedLayer nat
  | MappedText nat rat
  | FailedUpdate nat

text \<open>
  The variables the loop updates: the counters, the set \<^verbatim>\<open>usedIndices\<close> (in insertion
  order), \<^verbatim>\<open>details\<close>, the host text layers \<^verbatim>\<open>targetNodes\<close> and, in \<open>notified\<close>, the
  arguments of the calls of \<^verbatim>\<open>onProgress\<close> so far.
\<close>

record MapState =
  mapped :: nat
  skipped :: nat
  usedIndices :: "nat list"
  details :: "Detail list"
  targetNodes :: "TextNode list"
  notified :: "nat list"

text \<open>Lines 1067-1073; \<open>None\<close> is \<^verbatim>\<open>targetIndex === -1\<close>.\<close>

definition findTarget :: "nat list \<Rightarrow> ScoreEntry list \<Rightarrow> nat option" where
  "findTarget used scores =
     map_option targetIndex (find (\<lambda>e. targetIndex e \<notin> set used) scores)"

text \<open>
  One iteration of the \<^verbatim>\<open>for\<close> loop. The \<^verbatim>\<open>try\<close> block (lines 1084-1107) can throw at
  three places, and each time the \<^verbatim>\<open>catch\<close> block pushes the failure message and
  increments \<^verbatim>\<open>skipped\<close>:
  \<^item> reading \<^verbatim>\<open>locked\<close> of \<^verbatim>\<open>undefined\<close>, when the index is beyond \<^verbatim>\<open>targetNodes\<close>;
  \<^item> the assignment to \<^verbatim>\<open>characters\<close>, when the host rejects it;
  \<^item> the call of \<^verbatim>\<open>onProgress\<close>, which comes after the write, after
    \<^verbatim>\<open>usedIndices.add\<close>, after \<^verbatim>\<open>mapped++\<close> and after the success message was pushed.
  The call is recorded in \<open>notified\<close> whether it throws or not.
\<close>

definition processItem ::
  "Callback option \<Rightarrow> TextItem list \<Rightarrow> ScoreEntry list list \<Rightarrow> nat \<Rightarrow> MapState \<Rightarrow> MapState" where
  "processItem onProgress sourceItems scoringMatrix i st =
     (let scores = scoringMatrix ! i; sourceItem = sourceItems ! i in
      if scores = [] then
        st\<lparr> details := details st @ [NoSuitableTarget], skipped := skipped st + 1 \<rparr>
      else
        case findTarget (usedIndices st) scores of
          None \<Rightarrow> st\<lparr> details := details st @ [AllTargetsUsed], skipped := skipped st + 1 \<rparr>
        | Some tgt \<Rightarrow>
            if length (targetNodes st) \<le> tgt then
              st\<lparr> details := details st @ [FailedUpdate tgt], skipped := skipped st + 1 \<rparr>
            else if node_locked (targetNodes st ! tgt) then
              st\<lparr> details := details st @ [LockedLayer tgt], skipped := skipped st + 1 \<rparr>
            else if node_rejectsWrite (targetNodes st ! tgt) then
              st\<lparr> details := details st @ [FailedUpdate tgt], skipped := skipped st + 1 \<rparr>
            else
              (let st1 = st\<lparr> targetNodes := (targetNodes st)
                              [tgt := (targetNodes st ! tgt)
                                        \<lparr> node_characters := characters sourceItem \<rparr>],
                            usedIndices := usedIndices st @ [tgt],
                            mapped := mapped st + 1,
                            details := details st @
                              [MappedText tgt (case find (\<lambda>s. targetIndex s = tgt) scores of
                                                 Some s \<Rightarrow> score s | None \<Rightarrow> 0)] \<rparr>
               in case onProgress of
                    None \<Rightarrow> st1
                  | Some throws \<Rightarrow>
                      (let percent = percentOf i (length scoringMatrix);
                           st2 = st1\<lparr> notified := notified st1 @ [percent] \<rparr>
                       in if throws (notified st1) percent
                          then st2\<lparr> details := details st2 @ [FailedUpdate tgt],
                                    skipped := skipped st2 + 1 \<rparr>
                          else st2)))"

definition processMappings ::
  "Callback option \<Rightarrow> TextItem list \<Rightarrow> ScoreEntry list list \<Rightarrow> MapState \<Rightarrow> MapState" where
  "processMappings onProgress sourceItems scoringMatrix st =
     fold (processItem onProgress sourceItems scoringMatrix) [0..<length scoringMatrix] st"

text \<open>
  \<^verbatim>\<open>mapTextNodes\<close>. The source returns \<^verbatim>\<open>{mapped, skipped, details}\<close>; the model
  returns the whole final state, which also shows the effects on the target layers and on
  the progress callback.
\<close>

definition mapTextNodes ::
  "Callback option \<Rightarrow> (FontName \<Rightarrow> bool) \<Rightarrow> TextItem list \<Rightarrow> TextItem list \<Rightarrow> TextNode list
     \<Rightarrow> Error + MapState" where
  "mapTextNodes onProgress loadFont sourceItems targetItems nodes0 =
     (case ensureFontsLoaded onProgress loadFont nodes0 of
        Inl e \<Rightarrow> Inl e
      | Inr calls \<Rightarrow>
          Inr (processMappings onProgress sourceItems
                 (createScoringMatrix [] sourceItems targetItems)
                 \<lparr> mapped = 0, skipped = 0, usedIndices = [], details = [],
                   targetNodes = nodes0, notified = calls \<rparr>))"

section \<open>Payload, storage and message handlers\<close>

text \<open>\<^verbatim>\<open>interface CopyPayload\<close> (lines 773-779) and its serializable form (lines 782-807).\<close>

record CopyPayload =
  sourceFrameId :: string
  sourceFrameName :: string
  capturedAt :: nat
  payloadItems :: "TextItem list"
  frameStructure :: FrameStructure

record SerializableTextItem =
  ser_path :: "nat list"
  ser_name :: "string option"
  ser_characters :: string
  ser_fontSize :: "rat OrMixed option"
  fontFamily :: "string option"
  fontStyle :: "string option"
  ser_textStyleId :: "string option"

record SerializableCopyPayload =
  ser_sourceFrameId :: string
  ser_sourceFrameName :: string
  ser_capturedAt :: nat
  ser_items :: "SerializableTextItem list"
  ser_frameStructure :: FrameStructure

text \<open>\<^verbatim>\<open>deserializeTextItem\<close> and \<^verbatim>\<open>deserializePayload\<close> (lines 1181-1213).\<close>

definition deserializeTextItem :: "SerializableTextItem \<Rightarrow> TextItem" where
  "deserializeTextItem item =
     \<lparr> path = ser_path item,
       name = ser_name item,
       characters = ser_characters item,
       fontSize = ser_fontSize item,
       fontName = (case (fontFamily item, fontStyle item) of
                     (Some f, Some s) \<Rightarrow>
                       if f \<noteq> [] \<and> s \<noteq> [] then Some (Plain (FontName f s)) else None
                   | _ \<Rightarrow> None),
       textStyleId = ser_textStyleId item \<rparr>"

definition deserializePayload :: "SerializableCopyPayload \<Rightarrow> CopyPayload" where
  "deserializePayload p =
     \<lparr> sourceFrameId = ser_sourceFrameId p,
       sourceFrameName = ser_sourceFrameName p,
       capturedAt = ser_capturedAt p,
       payloadItems = map deserializeTextItem (ser_items p),
       frameStructure = ser_frameStructure p \<rparr>"

text \<open>The messages posted to the user interface by the handlers modelled here.\<close>

datatype UiMessage =
    PROGRESS nat
  | PASTE_SUCCESS nat nat nat "Detail list"
  | CLEAR_SUCCESS

text \<open>
  The state that outlives a handler: the global \<^verbatim>\<open>copyPayload\<close> (line 817), the value
  stored under the key \<^verbatim>\<open>"copyPayload"\<close> in \<^verbatim>\<open>figma.clientStorage\<close>, and the messages
  posted so far.
\<close>

record Session =
  copyPayload :: "CopyPayload option"
  stored :: "SerializableCopyPayload option"
  posted :: "UiMessage list"

text \<open>
  \<^verbatim>\<open>validateSingleFrameSelection\<close> (lines 881-903) on the current selection of the page.
\<close>

definition validateSingleFrameSelection :: "SceneNode list \<Rightarrow> Error + SceneNode" where
  "validateSingleFrameSelection selection =
     (if length selection = 0 then Inl (Error ''Please select a frame to work with'')
      else if length selection > 1 then Inl (Error ''Please select only one frame at a time'')
      else case selection ! 0 of
             FRAME cs \<Rightarrow> Inr (FRAME cs)
           | _ \<Rightarrow> Inl (Error ''Selected item must be a Frame. Please select a frame and try again.''))"

text \<open>
  The text layers in \<^verbatim>\<open>targetNodes\<close> are the objects of the tree itself, so a write to
  one of them is a write to the tree. \<open>withTextNodes node ns\<close> is \<open>node\<close> with its text
  layers replaced, in traversal order, by the elements of \<open>ns\<close>, together with the
  elements not used.
\<close>

fun withTextNodes :: "SceneNode \<Rightarrow> TextNode list \<Rightarrow> SceneNode \<times> TextNode list"
  and withTextNodesList :: "SceneNode list \<Rightarrow> TextNode list \<Rightarrow> SceneNode list \<times> TextNode list" where
  "withTextNodes (TEXT t) ns = (case ns of [] \<Rightarrow> (TEXT t, []) | n # rest \<Rightarrow> (TEXT n, rest))"
| "withTextNodes (FRAME cs) ns = (case withTextNodesList cs ns of (cs', rest) \<Rightarrow> (FRAME cs', rest))"
| "withTextNodes (Container cs) ns =
     (case withTextNodesList cs ns of (cs', rest) \<Rightarrow> (Container cs', rest))"
| "withTextNodes Other ns = (Other, ns)"
| "withTextNodesList [] ns = ([], ns)"
| "withTextNodesList (c # cs) ns =
     (case withTextNodes c ns of
        (c', rest) \<Rightarrow> (case withTextNodesList cs rest of (cs', rest') \<Rightarrow> (c' # cs', rest')))"

text \<open>
  \<^verbatim>\<open>handleClear\<close> (lines 1636-1651). \<open>writeFails\<close> tells whether
  \<^verbatim>\<open>figma.clientStorage.setAsync\<close> rejects. The result is the outcome (an exception or a
  normal return) and the session afterwards.
\<close>

definition handleClear :: "bool \<Rightarrow> Session \<Rightarrow> (Error + unit) \<times> Session" where
  "handleClear writeFails st =
     (let st1 = st\<lparr> copyPayload := None \<rparr> in
      if writeFails then (Inl HostError, st1)
      else (Inr (), st1\<lparr> stored := None, posted := posted st1 @ [CLEAR_SUCCESS] \<rparr>))"

text \<open>
  \<^verbatim>\<open>handlePaste\<close> (lines 1315-1372). \<open>readFails\<close> tells whether
  \<^verbatim>\<open>figma.clientStorage.getAsync\<close> rejects, \<open>loadFont\<close> is as in \<open>ensureFontsLoaded\<close>,
  \<open>selection\<close> is the current selection. The result is the outcome, the session
  afterwards and the selected nodes afterwards. The callback passed to
  \<^verbatim>\<open>mapTextNodes\<close> posts a message to the user interface and does not throw. Progress
  messages posted before a rejected font load are not modelled.
\<close>

definition handlePaste ::
  "bool \<Rightarrow> (FontName \<Rightarrow> bool) \<Rightarrow> SceneNode list \<Rightarrow> Session
     \<Rightarrow> (Error + unit) \<times> Session \<times> SceneNode list" where
  "handlePaste readFails loadFont selection st =
     (case validateSingleFrameSelection selection of
        Inl e \<Rightarrow> (Inl e, st, selection)
      | Inr frame \<Rightarrow>
          (let payload =
                 (case copyPayload st of
                    Some p \<Rightarrow> Some p
                  | None \<Rightarrow>
                      if readFails then None
                      else map_option deserializePayload (stored st))
           in case payload of
                None \<Rightarrow>
                  (Inl (Error ''No text copied. Please copy text from a frame first.''),
                   st, selection)
              | Some p \<Rightarrow>
                  (let target = fst (indexTextNodes frame) in
                   case mapTextNodes (Some (\<lambda>calls percent. False)) loadFont
                          (payloadItems p) (items target) (nodes target) of
                     Inl e \<Rightarrow> (Inl e, st, selection)
                   | Inr r \<Rightarrow>
                       (Inr (),
                        st\<lparr> posted := posted st @ map PROGRESS (notified r)
                               @ [PASTE_SUCCESS (mapped r) (skipped r)
                                    (length (payloadItems p)) (details r)] \<rparr>,
                        [fst (withTextNodes frame (targetNodes r))]))))"

section \<open>Auxiliary notions for the proofs\<close>

text \<open>
  The text layers still to be produced by the entries of a stack, top first; an auxiliary
  notion for the loop invariant of \<open>indexLoop\<close>.
\<close>

definition stackLeaves :: "(SceneNode \<times> nat list \<times> nat) list \<Rightarrow> (nat list \<times> TextNode) list" where
  "stackLeaves stack = concat (map (\<lambda>(node, p, d). dfsLeaves p node) stack)"

text \<open>
  A report entry that stands for a transfer, and the target index it names; the targets
  of the transfers of a report, in order.
\<close>

fun isTransfer :: "Detail \<Rightarrow> bool" where
  "isTransfer (MappedText j s) = True"
| "isTransfer _ = False"

fun transferTarget :: "Detail \<Rightarrow> nat list" where
  "transferTarget (MappedText j s) = [j]"
| "transferTarget _ = []"

definition mappedTargets :: "Detail list \<Rightarrow> nat list" where
  "mappedTargets ds = concat (map transferTarget ds)"

text \<open>
  The state in which the loop starts (lines 983-986, after the font loading), and the
  state in which iteration \<open>i\<close> of a run of \<^verbatim>\<open>mapTextNodes\<close> starts: the loop run for
  the source items before \<open>i\<close>.
\<close>

definition initialState :: "nat list \<Rightarrow> TextNode list \<Rightarrow> MapState" where
  "initialState calls nodes0 =
     \<lparr> mapped = 0, skipped = 0, usedIndices = [], details = [], targetNodes = nodes0,
       notified = calls \<rparr>"

definition stateBefore ::
  "Callback option \<Rightarrow> (FontName \<Rightarrow> bool) \<Rightarrow> TextItem list \<Rightarrow> TextItem list \<Rightarrow> TextNode list
     \<Rightarrow> nat \<Rightarrow> MapState" where
  "stateBefore onProgress loadFont sourceItems targetItems nodes0 i =
     fold (processItem onProgress sourceItems (createScoringMatrix [] sourceItems targetItems))
       [0..<i]
       (initialState
          (case ensureFontsLoaded onProgress loadFont nodes0 of Inr calls \<Rightarrow> calls | Inl e \<Rightarrow> [])
          nodes0)"

text \<open>
  The target index that iteration \<open>i\<close> selects (lines 1059-1073): the first candidate of
  source item \<open>i\<close>, in descending order of score, that no earlier source item has
  claimed; \<open>None\<close> when there is no candidate or all are claimed.
\<close>

definition selectedTarget ::
  "Callback option \<Rightarrow> (FontName \<Rightarrow> bool) \<Rightarrow> TextItem list \<Rightarrow> TextItem list \<Rightarrow> TextNode list
     \<Rightarrow> nat \<Rightarrow> nat option" where
  "selectedTarget onProgress loadFont sourceItems targetItems nodes0 i =
     (let scores = createScoringMatrix [] sourceItems targetItems ! i in
      if scores = [] then None
      else findTarget (usedIndices (stateBefore onProgress loadFont sourceItems targetItems nodes0 i)) scores)"

text \<open>
  The report entries that iteration \<open>i\<close> pushes, that is, the report of source item \<open>i\<close>:
  what \<^verbatim>\<open>details\<close> holds when the iteration ends beyond what it held when the iteration
  started. \<open>transferredSources\<close> lists the source items whose report has a transfer entry,
  \<open>unmappedSources\<close> the others.
\<close>

definition reportOf ::
  "Callback option \<Rightarrow> (FontName \<Rightarrow> bool) \<Rightarrow> TextItem list \<Rightarrow> TextItem list \<Rightarrow> TextNode list
     \<Rightarrow> nat \<Rightarrow> Detail list" where
  "reportOf onProgress loadFont sourceItems targetItems nodes0 i =
     drop (length (details (stateBefore onProgress loadFont sourceItems targetItems nodes0 i)))
       (details (stateBefore onProgress loadFont sourceItems targetItems nodes0 (Suc i)))"

definition transferredSources ::
  "Callback option \<Rightarrow> (FontName \<Rightarrow> bool) \<Rightarrow> TextItem list \<Rightarrow> TextItem list \<Rightarrow> TextNode list
     \<Rightarrow> nat list" where
  "transferredSources onProgress loadFont sourceItems targetItems nodes0 =
     filter (\<lambda>i. list_ex isTransfer (reportOf onProgress loadFont sourceItems targetItems nodes0 i))
       [0..<length sourceItems]"

definition unmappedSources ::
  "Callback option \<Rightarrow> (FontName \<Rightarrow> bool) \<Rightarrow> TextItem list \<Rightarrow> TextItem list \<Rightarrow> TextNode list
     \<Rightarrow> nat list" where
  "unmappedSources onProgress loadFont sourceItems targetItems nodes0 =
     filter (\<lambda>i. \<not> list_ex isTransfer (reportOf onProgress loadFont sourceItems targetItems nodes0 i))
       [0..<length sourceItems]"

text \<open>Whether the callback throws when an iteration that starts in state \<open>s\<close> calls it.\<close>

definition callThrows :: "Callback option \<Rightarrow> nat \<Rightarrow> nat \<Rightarrow> MapState \<Rightarrow> bool" where
  "callThrows cb i n s =
     (case cb of None \<Rightarrow> False | Some throws \<Rightarrow> throws (notified s) (percentOf i n))"

text \<open>
  The report entries that an iteration pushes when it starts in state \<open>s\<close>, read off
  the branches of the loop body; \<open>processItem_details\<close> below proves that these are the
  entries that \<open>processItem\<close> appends.
\<close>

definition pushed :: "Callback option \<Rightarrow> ScoreEntry list list \<Rightarrow> nat \<Rightarrow> MapState \<Rightarrow> Detail list" where
  "pushed cb M i s =
     (if M ! i = [] then [NoSuitableTarget]
      else case findTarget (usedIndices s) (M ! i) of
        None \<Rightarrow> [AllTargetsUsed]
      | Some j \<Rightarrow>
          if length (targetNodes s) \<le> j then [FailedUpdate j]
          else if node_locked (targetNodes s ! j) then [LockedLayer j]
          else if node_rejectsWrite (targetNodes s ! j) then [FailedUpdate j]
          else MappedText j (case find (\<lambda>e. targetIndex e = j) (M ! i) of
                               Some e \<Rightarrow> score e | None \<Rightarrow> 0)
               # (if callThrows cb i (length M) s then [FailedUpdate j] else []))"

section \<open>Example inputs\<close>

text \<open>
  A text layer in Inter Regular 12 without a text style, and the items used as sources
  in the examples: two layers named "Title" at paths \<open>[0, 0]\<close> and \<open>[0, 1]\<close>.
\<close>

definition layer :: "string \<Rightarrow> string \<Rightarrow> bool \<Rightarrow> TextNode" where
  "layer nm c lk =
     \<lparr> node_name = nm, node_characters = c, node_fontSize = Plain 12,
       node_fontName = Plain (FontName ''Inter'' ''Regular''), node_textStyleId = Plain [],
       node_locked = lk, node_rejectsWrite = False \<rparr>"

definition exSources :: "TextItem list" where
  "exSources = [textItemOf [0, 0] (layer ''Title'' ''Hello'' False),
                textItemOf [0, 1] (layer ''Title'' ''Bye'' False)]"

text \<open>
  Two target layers at paths \<open>[0, 0]\<close> and \<open>[0, 2]\<close>: with the first one locked, and
  with the second one locked.
\<close>

definition exLockedNodes :: "TextNode list" where
  "exLockedNodes = [layer ''Title'' ''World'' True, layer ''Other'' ''Moon'' False]"

definition exLockedTargets :: "TextItem list" where
  "exLockedTargets = [textItemOf [0, 0] (exLockedNodes ! 0), textItemOf [0, 2] (exLockedNodes ! 1)]"

definition exSpareNodes :: "TextNode list" where
  "exSpareNodes = [layer ''Title'' ''World'' False, layer ''Other'' ''Moon'' True]"

definition exSpareTargets :: "TextItem list" where
  "exSpareTargets = [textItemOf [0, 0] (exSpareNodes ! 0), textItemOf [0, 2] (exSpareNodes ! 1)]"

text \<open>
  Two unlocked target layers at the paths of the sources.
\<close>

definition exTwinNodes :: "TextNode list" where
  "exTwinNodes = [layer ''Title'' ''World'' False, layer ''Title'' ''Moon'' False]"

definition exTwinTargets :: "TextItem list" where
  "exTwinTargets = [textItemOf [0, 0] (exTwinNodes ! 0), textItemOf [0, 1] (exTwinNodes ! 1)]"

text \<open>
  An item with a name, a style and a font, and an item that has none of these in common
  with it.
\<close>

definition exStyled :: "nat list \<Rightarrow> string \<Rightarrow> TextItem" where
  "exStyled p nm =
     \<lparr> path = p, name = Some nm, characters = ''Hello'', fontSize = Some (Plain 12),
       fontName = Some (Plain (FontName ''Inter'' ''Regular'')), textStyleId = Some ''S:1'' \<rparr>"

definition exBare :: "nat list \<Rightarrow> TextItem" where
  "exBare p =
     \<lparr> path = p, name = Some ''Layer'', characters = ''World'', fontSize = None,
       fontName = None, textStyleId = None \<rparr>"

text \<open>
  Two target layers at paths \<open>[0]\<close> and \<open>[1]\<close>; the second one has the name, style and
  font of \<open>exStyled p ''Title''\<close>, the first one shares nothing with it.
\<close>

definition exRivalNodes :: "TextNode list" where
  "exRivalNodes =
     [\<lparr> node_name = ''Layer'', node_characters = ''World'', node_fontSize = Plain 10,
        node_fontName = Plain (FontName ''Roboto'' ''Regular''), node_textStyleId = Plain [],
        node_locked = False, node_rejectsWrite = False \<rparr>,
      \<lparr> node_name = ''Title'', node_characters = ''Moon'', node_fontSize = Plain 12,
        node_fontName = Plain (FontName ''Inter'' ''Regular''), node_textStyleId = Plain ''S:1'',
        node_locked = False, node_rejectsWrite = False \<rparr>]"

definition exRivalTargets :: "TextItem list" where
  "exRivalTargets = [textItemOf [0] (exRivalNodes ! 0), textItemOf [1] (exRivalNodes ! 1)]"

text \<open>
  A callback that never throws and one that always throws; a target layer of mixed fonts,
  for which the font loading has nothing to load; a source layer with a name, a style and
  a font, of which \<open>exStyled p nm\<close> is the item at path \<open>p\<close>.
\<close>

definition quietCallback :: Callback where
  "quietCallback calls percent = False"

definition throwingCallback :: Callback where
  "throwingCallback calls percent = True"

definition exMixedNode :: TextNode where
  "exMixedNode = (layer ''Title'' ''World'' False)\<lparr> node_fontName := Mixed \<rparr>"

definition exStyledNode :: "string \<Rightarrow> TextNode" where
  "exStyledNode nm =
     \<lparr> node_name = nm, node_characters = ''Hello'', node_fontSize = Plain 12,
       node_fontName = Plain (FontName ''Inter'' ''Regular''), node_textStyleId = Plain ''S:1'',
       node_locked = False, node_rejectsWrite = False \<rparr>"

section \<open>Properties of the indexer\<close>

lemma pushChildren_eq:
  "pushChildren node p d st = map (\<lambda>i. (cs ! i, p @ [i], Suc d)) [0..<length cs] @ st"
  if "children node = Some cs"
proof -
  have "fold (\<lambda>i st. (f i :: SceneNode \<times> nat list \<times> nat) # st) (rev is) st0 = map f is @ st0"
    for f and "is" :: "nat list" and st0
    by (induction "is" arbitrary: st0 rule: rev_induct) simp_all
  then show ?thesis using that by (simp add: pushChildren_def)
qed

lemma pushChildren_leaf:
  "children node = None \<Longrightarrow> pushChildren node p d st = st"
  by (simp add: pushChildren_def)

lemma dfsFrom_concat:
  "dfsFrom p i cs = concat (map (\<lambda>k. dfsLeaves (p @ [i + k]) (cs ! k)) [0..<length cs])"
proof (induction cs arbitrary: i)
  case Nil
  show ?case by simp
next
  case (Cons c cs)
  show ?case
    by (simp add: Cons.IH map_upt_Suc del: upt_Suc)
qed

lemma stackLeaves_simps [simp]:
  "stackLeaves [] = []"
  "stackLeaves ((node, p, d) # st) = dfsLeaves p node @ stackLeaves st"
  by (simp_all add: stackLeaves_def)

lemma stackLeaves_push:
  "stackLeaves (pushChildren node p d st) = (case node of TEXT t \<Rightarrow> [] | _ \<Rightarrow> dfsLeaves p node) @ stackLeaves st"
proof -
  have kids: "stackLeaves (map (\<lambda>i. (cs ! i, p @ [i], Suc d)) [0..<length cs] @ st)
                = dfsFrom p 0 cs @ stackLeaves st" for cs
    by (simp add: stackLeaves_def dfsFrom_concat comp_def)
  show ?thesis
    by (cases node) (simp_all add: pushChildren_eq pushChildren_leaf kids)
qed

lemma indexLoop_items:
  "items (indexLoop stack s) = items s @ map (\<lambda>(p, t). textItemOf p t) (stackLeaves stack)"
proof (induction stack s rule: indexLoop.induct)
  case (1 s)
  show ?case by simp
next
  case (2 node p depth stack s)
  have "items (indexLoop ((node, p, depth) # stack) s)
          = items (visit node p depth s)
            @ map (\<lambda>(p, t). textItemOf p t) (stackLeaves (pushChildren node p depth stack))"
    by (simp only: indexLoop.simps "2.IH")
  also have "\<dots> = items s @ map (\<lambda>(p, t). textItemOf p t) (stackLeaves ((node, p, depth) # stack))"
    by (cases node) (simp_all add: stackLeaves_push visit_def)
  finally show ?case .
qed

lemma indexLoop_nodes:
  "nodes (indexLoop stack s) = nodes s @ map snd (stackLeaves stack)"
proof (induction stack s rule: indexLoop.induct)
  case (1 s)
  show ?case by simp
next
  case (2 node p depth stack s)
  have "nodes (indexLoop ((node, p, depth) # stack) s)
          = nodes (visit node p depth s) @ map snd (stackLeaves (pushChildren node p depth stack))"
    by (simp only: indexLoop.simps "2.IH")
  also have "\<dots> = nodes s @ map snd (stackLeaves ((node, p, depth) # stack))"
    by (cases node) (simp_all add: stackLeaves_push visit_def)
  finally show ?case .
qed

lemma dfs_length:
  "length (dfsLeaves p node) = countTextNodes node"
  "length (dfsFrom p i cs) = sum_list (map countTextNodes cs)"
  by (induction p node and p i cs rule: dfsLeaves_dfsFrom.induct) simp_all

lemma dfs_prefix:
  "q \<in> fst ` set (dfsLeaves p node) \<Longrightarrow> take (length p) q = p"
  "q \<in> fst ` set (dfsFrom p i cs) \<Longrightarrow> take (length p) q = p \<and> length p < length q \<and> i \<le> q ! length p"
proof (induction p node and p i cs arbitrary: q and q rule: dfsLeaves_dfsFrom.induct)
  case (6 p i c cs)
  from "6.prems" consider "q \<in> fst ` set (dfsLeaves (p @ [i]) c)" | "q \<in> fst ` set (dfsFrom p (Suc i) cs)"
    by auto
  then show ?case
  proof cases
    case 1
    then have t: "take (Suc (length p)) q = p @ [i]" using "6.IH"(1) by simp
    then have "length p < length q"
      by (metis length_append_singleton length_take min_less_iff_conj lessI)
    moreover from t have "take (length p) q = p"
      by (metis append_eq_conv_conj take_take min.idem min_def butlast_snoc butlast_take diff_Suc_1)
    moreover from t have "q ! length p = i"
      by (metis nth_append_length nth_take lessI)
    ultimately show ?thesis by simp
  next
    case 2
    then show ?thesis using "6.IH"(2)[of q] by auto
  qed
qed auto

lemma dfs_distinct:
  "distinct (map fst (dfsLeaves p node))"
  "distinct (map fst (dfsFrom p i cs))"
proof (induction p node and p i cs rule: dfsLeaves_dfsFrom.induct)
  case (6 p i c cs)
  have "fst ` set (dfsLeaves (p @ [i]) c) \<inter> fst ` set (dfsFrom p (Suc i) cs) = {}"
  proof (rule ccontr)
    assume "\<not> ?thesis"
    then obtain q where a: "q \<in> fst ` set (dfsLeaves (p @ [i]) c)"
      and b: "q \<in> fst ` set (dfsFrom p (Suc i) cs)" by blast
    from dfs_prefix(1)[OF a] have "take (Suc (length p)) q = p @ [i]" by simp
    moreover from dfs_prefix(2)[OF b] have "length p < length q" "Suc i \<le> q ! length p" by simp_all
    ultimately show False
      by (metis nth_append_length nth_take lessI Suc_n_not_le_n)
  qed
  with 6 show ?case by simp
qed simp_all

lemma dfs_find_mem:
  "(q, t) \<in> set (dfsLeaves p node) \<Longrightarrow> \<exists>r. q = p @ r \<and> findNodeAtPath node r = Some (TEXT t)"
  "(q, t) \<in> set (dfsFrom p i cs) \<Longrightarrow>
     \<exists>k r. k < length cs \<and> q = p @ (i + k) # r \<and> findNodeAtPath (cs ! k) r = Some (TEXT t)"
proof (induction p node and p i cs arbitrary: q t and q t rule: dfsLeaves_dfsFrom.induct)
  case (2 p cs)
  from "2.prems" have "(q, t) \<in> set (dfsFrom p 0 cs)" by simp
  from "2.IH"[OF this] obtain k r where
    "k < length cs" "q = p @ k # r" "findNodeAtPath (cs ! k) r = Some (TEXT t)"
    by auto
  then have "q = p @ (k # r) \<and> findNodeAtPath (FRAME cs) (k # r) = Some (TEXT t)"
    by simp
  then show ?case by blast
next
  case (3 p cs)
  from "3.prems" have "(q, t) \<in> set (dfsFrom p 0 cs)" by simp
  from "3.IH"[OF this] obtain k r where
    "k < length cs" "q = p @ k # r" "findNodeAtPath (cs ! k) r = Some (TEXT t)"
    by auto
  then have "q = p @ (k # r) \<and> findNodeAtPath (Container cs) (k # r) = Some (TEXT t)"
    by simp
  then show ?case by blast
next
  case (6 p i c cs)
  from "6.prems" consider "(q, t) \<in> set (dfsLeaves (p @ [i]) c)" | "(q, t) \<in> set (dfsFrom p (Suc i) cs)"
    by auto
  then show ?case
  proof cases
    case 1
    from "6.IH"(1)[OF 1] obtain r where "q = (p @ [i]) @ r" "findNodeAtPath c r = Some (TEXT t)"
      by blast
    then have "0 < length (c # cs) \<and> q = p @ (i + 0) # r \<and> findNodeAtPath ((c # cs) ! 0) r = Some (TEXT t)"
      by simp
    then show ?thesis by blast
  next
    case 2
    from "6.IH"(2)[OF 2] obtain k r where
      "k < length cs" "q = p @ (Suc i + k) # r" "findNodeAtPath (cs ! k) r = Some (TEXT t)"
      by blast
    then have "Suc k < length (c # cs) \<and> q = p @ (i + Suc k) # r
               \<and> findNodeAtPath ((c # cs) ! Suc k) r = Some (TEXT t)"
      by simp
    then show ?thesis by blast
  qed
qed simp_all

lemma indexTextNodes_items:
  "items (fst (indexTextNodes frameNode)) = map (\<lambda>(p, t). textItemOf p t) (dfsLeaves [] frameNode)"
  by (simp add: indexTextNodes_def Let_def indexLoop_items del: indexLoop.simps)

lemma indexTextNodes_nodes:
  "nodes (fst (indexTextNodes frameNode)) = map snd (dfsLeaves [] frameNode)"
  by (simp add: indexTextNodes_def Let_def indexLoop_nodes del: indexLoop.simps)

lemma path_textItemOf [simp]: "path (textItemOf p t) = p"
  by (simp add: textItemOf_def)

text \<open>
  Claim C8. For every subtree, \<open>indexTextNodes\<close> produces exactly the text layers of the
  subtree in the natural left-to-right depth-first order, each with the path that leads
  to it from the root (the root itself having path \<open>[]\<close>): the items and the nodes are
  those of \<open>dfsLeaves [] frameNode\<close>, their number is the number of text-bearing nodes,
  the paths are pairwise distinct, and \<open>findNodeAtPath\<close> on the path of the k-th item
  returns the k-th text layer.
\<close>

theorem indexTextNodes_snapshot:
  "items (fst (indexTextNodes frameNode)) = map (\<lambda>(p, t). textItemOf p t) (dfsLeaves [] frameNode)
   \<and> nodes (fst (indexTextNodes frameNode)) = map snd (dfsLeaves [] frameNode)
   \<and> length (items (fst (indexTextNodes frameNode))) = countTextNodes frameNode
   \<and> textNodeCount (snd (indexTextNodes frameNode)) = countTextNodes frameNode
   \<and> distinct (map path (items (fst (indexTextNodes frameNode))))
   \<and> map (\<lambda>it. findNodeAtPath frameNode (path it)) (items (fst (indexTextNodes frameNode)))
       = map (\<lambda>t. Some (TEXT t)) (nodes (fst (indexTextNodes frameNode)))"
proof -
  have paths: "map path (map (\<lambda>(p, t). textItemOf p t) (dfsLeaves [] frameNode)) = map fst (dfsLeaves [] frameNode)"
    by (simp add: case_prod_unfold comp_def)
  have len: "length (items (fst (indexTextNodes frameNode))) = countTextNodes frameNode"
    by (simp add: indexTextNodes_items dfs_length)
  have cnt: "textNodeCount (snd (indexTextNodes frameNode)) = length (items (fst (indexTextNodes frameNode)))"
    by (simp add: indexTextNodes_def Let_def)
  have dist: "distinct (map path (items (fst (indexTextNodes frameNode))))"
    by (simp only: indexTextNodes_items paths dfs_distinct)
  have "map (\<lambda>x. findNodeAtPath frameNode (fst x)) (dfsLeaves [] frameNode)
          = map (\<lambda>x. Some (TEXT (snd x))) (dfsLeaves [] frameNode)"
  proof (rule map_cong[OF refl])
    fix x assume "x \<in> set (dfsLeaves [] frameNode)"
    then have "(fst x, snd x) \<in> set (dfsLeaves [] frameNode)" by simp
    from dfs_find_mem(1)[OF this] show "findNodeAtPath frameNode (fst x) = Some (TEXT (snd x))" by simp
  qed
  then have find: "map (\<lambda>it. findNodeAtPath frameNode (path it)) (items (fst (indexTextNodes frameNode)))
       = map (\<lambda>t. Some (TEXT t)) (nodes (fst (indexTextNodes frameNode)))"
    by (simp add: indexTextNodes_items indexTextNodes_nodes case_prod_unfold comp_def)
  from cnt len have cnt': "textNodeCount (snd (indexTextNodes frameNode)) = countTextNodes frameNode"
    by simp
  show ?thesis
    by (intro conjI indexTextNodes_items indexTextNodes_nodes len cnt' dist find)
qed

section \<open>Properties of the matcher, the applier and the handlers\<close>

subsection \<open>The loop, one iteration at a time\<close>

lemma fold_upt_induct:
  assumes "Q 0 st0" and "\<And>k st. k < n \<Longrightarrow> Q k st \<Longrightarrow> Q (Suc k) (f k st)"
  shows "Q n (fold f [0..<n] st0)"
  using assms(2)
proof (induction n)
  case 0
  show ?case using assms(1) by simp
next
  case (Suc n)
  have "Q n (fold f [0..<n] st0)"
    by (rule Suc.IH) (simp add: Suc.prems)
  then have "Q (Suc n) (f n (fold f [0..<n] st0))"
    by (rule Suc.prems[OF lessI])
  then show ?case by simp
qed

lemma findTarget_Some:
  "findTarget used scores = Some j \<Longrightarrow> j \<notin> set used \<and> (\<exists>e \<in> set scores. targetIndex e = j)"
  by (auto simp: findTarget_def find_Some_iff)

text \<open>
  The two shapes of a step: a skip, which pushes one entry that is not a transfer; and a
  write, which pushes the transfer entry and, when the callback throws, the failure entry
  after it.
\<close>

lemma processItem_cases:
  obtains (Skip) d where "\<not> isTransfer d"
      "processItem cb S M i st = st\<lparr> details := details st @ [d], skipped := skipped st + 1 \<rparr>"
  | (Write) tgt extra calls where "findTarget (usedIndices st) (M ! i) = Some tgt"
      "tgt < length (targetNodes st)" "\<not> node_locked (targetNodes st ! tgt)"
      "\<not> node_rejectsWrite (targetNodes st ! tgt)"
      "extra = [] \<or> extra = [FailedUpdate tgt]"
      "calls = (case cb of None \<Rightarrow> [] | Some throws \<Rightarrow> [percentOf i (length M)])"
      "processItem cb S M i st =
         st\<lparr> targetNodes := (targetNodes st)
                [tgt := (targetNodes st ! tgt)\<lparr> node_characters := characters (S ! i) \<rparr>],
             usedIndices := usedIndices st @ [tgt],
             mapped := mapped st + 1,
             details := details st @
               MappedText tgt (case find (\<lambda>s. targetIndex s = tgt) (M ! i) of
                                  Some s \<Rightarrow> score s | None \<Rightarrow> 0) # extra,
             skipped := skipped st + length extra,
             notified := notified st @ calls \<rparr>"
proof (cases "M ! i = []")
  case True
  then have "processItem cb S M i st = st\<lparr> details := details st @ [NoSuitableTarget], skipped := skipped st + 1 \<rparr>"
    by (simp add: processItem_def)
  then show ?thesis using Skip[of NoSuitableTarget] by simp
next
  case ne: False
  show ?thesis
  proof (cases "findTarget (usedIndices st) (M ! i)")
    case None
    with ne have "processItem cb S M i st = st\<lparr> details := details st @ [AllTargetsUsed], skipped := skipped st + 1 \<rparr>"
      by (simp add: processItem_def)
    then show ?thesis using Skip[of AllTargetsUsed] by simp
  next
    case (Some tgt)
    consider (a) "length (targetNodes st) \<le> tgt"
      | (b) "tgt < length (targetNodes st)" "node_locked (targetNodes st ! tgt)"
      | (c) "tgt < length (targetNodes st)" "\<not> node_locked (targetNodes st ! tgt)" "node_rejectsWrite (targetNodes st ! tgt)"
      | (d) "tgt < length (targetNodes st)" "\<not> node_locked (targetNodes st ! tgt)" "\<not> node_rejectsWrite (targetNodes st ! tgt)"
      by fastforce
    then show ?thesis
    proof cases
      case a
      with ne Some have "processItem cb S M i st = st\<lparr> details := details st @ [FailedUpdate tgt], skipped := skipped st + 1 \<rparr>"
        by (simp add: processItem_def)
      then show ?thesis using Skip[of "FailedUpdate tgt"] by simp
    next
      case b
      with ne Some have "processItem cb S M i st = st\<lparr> details := details st @ [LockedLayer tgt], skipped := skipped st + 1 \<rparr>"
        by (simp add: processItem_def)
      then show ?thesis using Skip[of "LockedLayer tgt"] by simp
    next
      case c
      with ne Some have "processItem cb S M i st = st\<lparr> details := details st @ [FailedUpdate tgt], skipped := skipped st + 1 \<rparr>"
        by (simp add: processItem_def)
      then show ?thesis using Skip[of "FailedUpdate tgt"] by simp
    next
      case d
      show ?thesis
      proof (cases cb)
        case None
        with ne Some d show ?thesis
          by (intro Write[of tgt "[]" "[]"]) (simp_all add: processItem_def)
      next
        case cb: (Some throws)
        show ?thesis
        proof (cases "throws (notified st) (percentOf i (length M))")
          case True
          with ne Some d cb show ?thesis
            by (intro Write[of tgt "[FailedUpdate tgt]" "[percentOf i (length M)]"])
               (simp_all add: processItem_def Let_def)
        next
          case False
          with ne Some d cb show ?thesis
            by (intro Write[of tgt "[]" "[percentOf i (length M)]"])
               (simp_all add: processItem_def Let_def)
        qed
      qed
    qed
  qed
qed

lemma steps_counts:
  fixes cb S M n st0
  assumes "mapped st0 = 0" "skipped st0 = 0" "details st0 = []"
  defines "st \<equiv> fold (processItem cb S M) [0..<n] st0"
  shows "mapped st = length (filter isTransfer (details st))
      \<and> skipped st = length (filter (\<lambda>d. \<not> isTransfer d) (details st))
      \<and> mapped st + skipped st = length (details st)
      \<and> n \<le> length (details st)"
proof -
  let ?Q = "\<lambda>k (s :: MapState). mapped s = length (filter isTransfer (details s))
      \<and> skipped s = length (filter (\<lambda>d. \<not> isTransfer d) (details s))
      \<and> mapped s + skipped s = length (details s)
      \<and> k \<le> length (details s)"
  have "?Q n (fold (processItem cb S M) [0..<n] st0)"
  proof (rule fold_upt_induct[where Q = ?Q])
    show "?Q 0 st0" using assms(1-3) by simp
  next
    fix k and s :: MapState
    assume Q: "?Q k s"
    show "?Q (Suc k) (processItem cb S M k s)"
    proof (cases rule: processItem_cases[of cb S M k s])
      case (Skip d)
      then show ?thesis using Q by simp
    next
      case (Write tgt extra calls)
      from Write(5) show ?thesis unfolding Write(7) using Q by auto
    qed
  qed
  then show ?thesis by (simp add: st_def)
qed

lemma mappedTargets_snoc [simp]:
  "mappedTargets [] = []"
  "mappedTargets (ds @ es) = mappedTargets ds @ mappedTargets es"
  "mappedTargets (d # ds) = transferTarget d @ mappedTargets ds"
  by (simp_all add: mappedTargets_def)

lemma transferTarget_skip: "\<not> isTransfer d \<Longrightarrow> transferTarget d = []"
  by (cases d) simp_all

lemma steps_used:
  fixes cb S M n st0
  assumes "usedIndices st0 = []" "details st0 = []" "mapped st0 = 0"
  defines "st \<equiv> fold (processItem cb S M) [0..<n] st0"
  shows "mappedTargets (details st) = usedIndices st \<and> distinct (usedIndices st)
         \<and> mapped st = length (usedIndices st)"
proof -
  let ?Q = "\<lambda>k (s :: MapState). mappedTargets (details s) = usedIndices s \<and> distinct (usedIndices s)
              \<and> mapped s = length (usedIndices s)"
  have "?Q n (fold (processItem cb S M) [0..<n] st0)"
  proof (rule fold_upt_induct[where Q = ?Q])
    show "?Q 0 st0" using assms(1-3) by simp
  next
    fix k and s :: MapState
    assume Q: "?Q k s"
    show "?Q (Suc k) (processItem cb S M k s)"
    proof (cases rule: processItem_cases[of cb S M k s])
      case (Skip d)
      then show ?thesis using Q by (auto simp: transferTarget_skip)
    next
      case (Write tgt extra calls)
      from findTarget_Some[OF Write(1)] have "tgt \<notin> set (usedIndices s)" by simp
      with Write(5) show ?thesis unfolding Write(7) using Q by auto
    qed
  qed
  then show ?thesis unfolding st_def .
qed

lemma steps_used_bound:
  fixes cb S M n st0
  assumes "usedIndices st0 = []"
    and "\<And>i e. i < n \<Longrightarrow> e \<in> set (M ! i) \<Longrightarrow> targetIndex e \<in> B"
  shows "set (usedIndices (fold (processItem cb S M) [0..<n] st0)) \<subseteq> B"
proof -
  let ?Q = "\<lambda>k (s :: MapState). set (usedIndices s) \<subseteq> B"
  show ?thesis
  proof (rule fold_upt_induct[where Q = ?Q])
    show "?Q 0 st0" using assms(1) by simp
  next
    fix k and s :: MapState
    assume k: "k < n" and Q: "?Q k s"
    show "?Q (Suc k) (processItem cb S M k s)"
    proof (cases rule: processItem_cases[of cb S M k s])
      case (Skip d)
      then show ?thesis using Q by simp
    next
      case (Write tgt extra calls)
      from findTarget_Some[OF Write(1)] assms(2)[OF k] have "tgt \<in> B" by blast
      then show ?thesis unfolding Write(7) using Q by simp
    qed
  qed
qed

lemma steps_nodes:
  fixes cb S M n st0 N0
  assumes "usedIndices st0 = []" "targetNodes st0 = N0"
  defines "st \<equiv> fold (processItem cb S M) [0..<n] st0"
  shows "length (targetNodes st) = length N0"
    and "j < length N0 \<Longrightarrow>
           (targetNodes st ! j)\<lparr> node_characters := c \<rparr> = (N0 ! j)\<lparr> node_characters := c \<rparr>"
    and "j < length N0 \<Longrightarrow> node_locked (N0 ! j) \<or> node_rejectsWrite (N0 ! j) \<or> j \<notin> set (usedIndices st)
           \<Longrightarrow> targetNodes st ! j = N0 ! j"
    and "j \<in> set (usedIndices st) \<Longrightarrow>
           j < length N0 \<and> \<not> node_locked (N0 ! j) \<and> \<not> node_rejectsWrite (N0 ! j)"
proof -
  let ?Q = "\<lambda>k (s :: MapState). length (targetNodes s) = length N0
      \<and> (\<forall>j\<in>set (usedIndices s). j < length N0 \<and> \<not> node_locked (N0 ! j) \<and> \<not> node_rejectsWrite (N0 ! j))
      \<and> (\<forall>j<length N0. (targetNodes s ! j)\<lparr> node_characters := [] \<rparr> = (N0 ! j)\<lparr> node_characters := [] \<rparr>)
      \<and> (\<forall>j<length N0. node_locked (N0 ! j) \<or> node_rejectsWrite (N0 ! j) \<or> j \<notin> set (usedIndices s)
            \<longrightarrow> targetNodes s ! j = N0 ! j)"
  have erase: "node_locked a = node_locked b \<and> node_rejectsWrite a = node_rejectsWrite b"
    if "a\<lparr> node_characters := [] \<rparr> = b\<lparr> node_characters := [] \<rparr>" for a b :: TextNode
  proof -
    have "node_locked (a\<lparr> node_characters := [] \<rparr>) = node_locked (b\<lparr> node_characters := [] \<rparr>)"
         "node_rejectsWrite (a\<lparr> node_characters := [] \<rparr>) = node_rejectsWrite (b\<lparr> node_characters := [] \<rparr>)"
      using that by simp_all
    then show ?thesis by simp
  qed
  have "?Q n (fold (processItem cb S M) [0..<n] st0)"
  proof (rule fold_upt_induct[where Q = ?Q])
    show "?Q 0 st0" using assms(1,2) by simp
  next
    fix k and s :: MapState
    assume Q: "?Q k s"
    show "?Q (Suc k) (processItem cb S M k s)"
    proof (cases rule: processItem_cases[of cb S M k s])
      case (Skip d)
      then show ?thesis using Q by simp
    next
      case (Write tgt extra calls)
      from Q have len: "length (targetNodes s) = length N0"
        and q2: "\<And>j. j < length N0 \<Longrightarrow>
                   (targetNodes s ! j)\<lparr> node_characters := [] \<rparr> = (N0 ! j)\<lparr> node_characters := [] \<rparr>"
        and q3: "\<And>j. j < length N0 \<Longrightarrow>
                   node_locked (N0 ! j) \<or> node_rejectsWrite (N0 ! j) \<or> j \<notin> set (usedIndices s)
                   \<Longrightarrow> targetNodes s ! j = N0 ! j"
        and q4: "\<And>j. j \<in> set (usedIndices s) \<Longrightarrow>
                   j < length N0 \<and> \<not> node_locked (N0 ! j) \<and> \<not> node_rejectsWrite (N0 ! j)"
        by blast+
      from Write(2) len have tgt: "tgt < length N0" by simp
      from erase[OF q2[OF tgt]] Write(3,4)
      have free: "\<not> node_locked (N0 ! tgt)" "\<not> node_rejectsWrite (N0 ! tgt)" by simp_all
      let ?X = "(targetNodes s ! tgt)\<lparr> node_characters := characters (S ! k) \<rparr>"
      let ?new = "(targetNodes s)[tgt := ?X]"
      have X: "?X\<lparr> node_characters := [] \<rparr> = (N0 ! tgt)\<lparr> node_characters := [] \<rparr>"
        using q2[OF tgt] by simp
      have a: "length ?new = length N0" using len by simp
      have b: "(?new ! j)\<lparr> node_characters := [] \<rparr> = (N0 ! j)\<lparr> node_characters := [] \<rparr>"
        if "j < length N0" for j
      proof (cases "j = tgt")
        case True
        with that len have "?new ! j = ?X" by simp
        with X True show ?thesis by simp
      next
        case False
        then have "?new ! j = targetNodes s ! j" by simp
        with q2[OF that] show ?thesis by simp
      qed
      have c: "?new ! j = N0 ! j"
        if "j < length N0" "node_locked (N0 ! j) \<or> node_rejectsWrite (N0 ! j) \<or> j \<notin> set (usedIndices s @ [tgt])"
        for j
      proof -
        from that(2) free have ne: "j \<noteq> tgt" by auto
        then have "?new ! j = targetNodes s ! j" by simp
        moreover from that(2) have "node_locked (N0 ! j) \<or> node_rejectsWrite (N0 ! j) \<or> j \<notin> set (usedIndices s)"
          by auto
        ultimately show ?thesis using q3[OF that(1)] by simp
      qed
      have d: "j < length N0 \<and> \<not> node_locked (N0 ! j) \<and> \<not> node_rejectsWrite (N0 ! j)"
        if "j \<in> set (usedIndices s @ [tgt])" for j
        using that q4 tgt free by auto
      show ?thesis
        unfolding Write(7) using a b c d by simp
    qed
  qed
  then have fin: "length (targetNodes st) = length N0"
    "\<And>j. j < length N0 \<Longrightarrow>
       (targetNodes st ! j)\<lparr> node_characters := [] \<rparr> = (N0 ! j)\<lparr> node_characters := [] \<rparr>"
    "\<And>j. j < length N0 \<Longrightarrow> node_locked (N0 ! j) \<or> node_rejectsWrite (N0 ! j) \<or> j \<notin> set (usedIndices st)
           \<Longrightarrow> targetNodes st ! j = N0 ! j"
    "\<And>j. j \<in> set (usedIndices st) \<Longrightarrow>
           j < length N0 \<and> \<not> node_locked (N0 ! j) \<and> \<not> node_rejectsWrite (N0 ! j)"
    unfolding st_def by blast+
  show "length (targetNodes st) = length N0" by (rule fin(1))
  show "(targetNodes st ! j)\<lparr> node_characters := c \<rparr> = (N0 ! j)\<lparr> node_characters := c \<rparr>"
    if "j < length N0"
  proof -
    have "((targetNodes st ! j)\<lparr> node_characters := [] \<rparr>)\<lparr> node_characters := c \<rparr>
            = ((N0 ! j)\<lparr> node_characters := [] \<rparr>)\<lparr> node_characters := c \<rparr>"
      by (simp only: fin(2)[OF that])
    then show ?thesis by simp
  qed
  show "targetNodes st ! j = N0 ! j"
    if "j < length N0" "node_locked (N0 ! j) \<or> node_rejectsWrite (N0 ! j) \<or> j \<notin> set (usedIndices st)"
    using fin(3)[OF that] .
  show "j < length N0 \<and> \<not> node_locked (N0 ! j) \<and> \<not> node_rejectsWrite (N0 ! j)"
    if "j \<in> set (usedIndices st)"
    using fin(4)[OF that] .
qed

lemma node_flags:
  "a\<lparr> node_characters := [] \<rparr> = b\<lparr> node_characters := [] \<rparr> \<Longrightarrow>
     node_locked a = node_locked b \<and> node_rejectsWrite a = node_rejectsWrite b"
  for a b :: TextNode
proof -
  assume e: "a\<lparr> node_characters := [] \<rparr> = b\<lparr> node_characters := [] \<rparr>"
  have "node_locked (a\<lparr> node_characters := [] \<rparr>) = node_locked (b\<lparr> node_characters := [] \<rparr>)"
       "node_rejectsWrite (a\<lparr> node_characters := [] \<rparr>) = node_rejectsWrite (b\<lparr> node_characters := [] \<rparr>)"
    by (simp_all only: e)
  then show ?thesis by simp
qed

lemma createScoringMatrix_length [simp]:
  "length (createScoringMatrix u S T) = length S"
  by (simp add: createScoringMatrix_def)

lemma createScoringMatrix_nth:
  "i < length S \<Longrightarrow> createScoringMatrix u S T ! i = scoreRow u T i (S ! i)"
  by (simp add: createScoringMatrix_def)

lemma scoreRow_entry:
  "e \<in> set (scoreRow u T i s) \<Longrightarrow>
     targetIndex e < length T \<and> targetIndex e \<notin> set u
     \<and> score e = computeScore s (T ! targetIndex e) \<and> 0 < score e"
  by (auto simp: scoreRow_def)

lemma initialState_simps [simp]:
  "mapped (initialState calls N) = 0" "skipped (initialState calls N) = 0"
  "usedIndices (initialState calls N) = []" "details (initialState calls N) = []"
  "targetNodes (initialState calls N) = N"
  "notified (initialState calls N) = calls"
  by (simp_all add: initialState_def)

lemma mapTextNodes_Inr:
  assumes "mapTextNodes cb lf S T N = Inr r"
  shows "r = stateBefore cb lf S T N (length S)"
    and "\<exists>calls. ensureFontsLoaded cb lf N = Inr calls"
  using assms
  by (auto simp: mapTextNodes_def stateBefore_def processMappings_def initialState_def
           split: sum.splits)

lemma stateBefore_0 [simp]:
  "stateBefore cb lf S T N 0
     = initialState (case ensureFontsLoaded cb lf N of Inr calls \<Rightarrow> calls | Inl e \<Rightarrow> []) N"
  by (simp add: stateBefore_def)

lemma stateBefore_Suc:
  "stateBefore cb lf S T N (Suc i)
     = processItem cb S (createScoringMatrix [] S T) i (stateBefore cb lf S T N i)"
  by (simp add: stateBefore_def)

lemma stateBefore_counts:
  "mapped (stateBefore cb lf S T N n) = length (filter isTransfer (details (stateBefore cb lf S T N n)))
   \<and> skipped (stateBefore cb lf S T N n)
       = length (filter (\<lambda>d. \<not> isTransfer d) (details (stateBefore cb lf S T N n)))
   \<and> mapped (stateBefore cb lf S T N n) + skipped (stateBefore cb lf S T N n)
       = length (details (stateBefore cb lf S T N n))
   \<and> n \<le> length (details (stateBefore cb lf S T N n))"
  unfolding stateBefore_def
  using steps_counts[where ?st0.0 = "initialState (case ensureFontsLoaded cb lf N of Inr calls \<Rightarrow> calls | Inl e \<Rightarrow> []) N"
      and cb = cb and S = S and M = "createScoringMatrix [] S T" and n = n]
  by simp

lemma stateBefore_used:
  "mappedTargets (details (stateBefore cb lf S T N n)) = usedIndices (stateBefore cb lf S T N n)
   \<and> distinct (usedIndices (stateBefore cb lf S T N n))
   \<and> mapped (stateBefore cb lf S T N n) = length (usedIndices (stateBefore cb lf S T N n))"
  unfolding stateBefore_def
  using steps_used[where ?st0.0 = "initialState (case ensureFontsLoaded cb lf N of Inr calls \<Rightarrow> calls | Inl e \<Rightarrow> []) N"
      and cb = cb and S = S and M = "createScoringMatrix [] S T" and n = n]
  by simp

lemma stateBefore_nodes:
  "length (targetNodes (stateBefore cb lf S T N i)) = length N"
  "j < length N \<Longrightarrow> node_locked (targetNodes (stateBefore cb lf S T N i) ! j) = node_locked (N ! j)"
  "j < length N \<Longrightarrow> node_rejectsWrite (targetNodes (stateBefore cb lf S T N i) ! j) = node_rejectsWrite (N ! j)"
  "j < length N \<Longrightarrow> node_locked (N ! j) \<or> node_rejectsWrite (N ! j) \<or> j \<notin> set (usedIndices (stateBefore cb lf S T N i))
     \<Longrightarrow> targetNodes (stateBefore cb lf S T N i) ! j = N ! j"
  "j \<in> set (usedIndices (stateBefore cb lf S T N i)) \<Longrightarrow>
     j < length N \<and> \<not> node_locked (N ! j) \<and> \<not> node_rejectsWrite (N ! j)"
proof -
  let ?st0 = "initialState (case ensureFontsLoaded cb lf N of Inr calls \<Rightarrow> calls | Inl e \<Rightarrow> []) N"
  note n = steps_nodes[where ?st0.0 = ?st0 and ?N0.0 = N and cb = cb and S = S
      and M = "createScoringMatrix [] S T" and n = i, folded stateBefore_def, simplified]
  show "length (targetNodes (stateBefore cb lf S T N i)) = length N" by (rule n(1))
  show "node_locked (targetNodes (stateBefore cb lf S T N i) ! j) = node_locked (N ! j)" if "j < length N"
    using node_flags[OF n(2)[OF that, of "[]"]] by simp
  show "node_rejectsWrite (targetNodes (stateBefore cb lf S T N i) ! j) = node_rejectsWrite (N ! j)" if "j < length N"
    using node_flags[OF n(2)[OF that, of "[]"]] by simp
  show "targetNodes (stateBefore cb lf S T N i) ! j = N ! j"
    if "j < length N" "node_locked (N ! j) \<or> node_rejectsWrite (N ! j) \<or> j \<notin> set (usedIndices (stateBefore cb lf S T N i))"
    using n(3)[OF that] .
  show "j < length N \<and> \<not> node_locked (N ! j) \<and> \<not> node_rejectsWrite (N ! j)"
    if "j \<in> set (usedIndices (stateBefore cb lf S T N i))"
    using n(4)[OF that] .
qed

lemma processItem_details:
  "details (processItem cb S M i s) = details s @ pushed cb M i s"
  by (cases cb) (simp_all add: processItem_def pushed_def callThrows_def Let_def split: option.splits)

lemma processItem_usedIndices:
  "usedIndices (processItem cb S M i s) = usedIndices s @
     (if M ! i = [] then []
      else case findTarget (usedIndices s) (M ! i) of
        None \<Rightarrow> []
      | Some j \<Rightarrow>
          if length (targetNodes s) \<le> j \<or> node_locked (targetNodes s ! j)
             \<or> node_rejectsWrite (targetNodes s ! j) then []
          else [j])"
  by (cases cb) (simp_all add: processItem_def Let_def split: option.splits)

lemma processItem_notified:
  "notified (processItem cb S M i s) = notified s @
     (if list_ex isTransfer (pushed cb M i s)
      then (case cb of None \<Rightarrow> [] | Some throws \<Rightarrow> [percentOf i (length M)]) else [])"
  by (cases cb) (simp_all add: processItem_def pushed_def Let_def split: option.splits)

lemma processItem_mapped:
  "mapped (processItem cb S M i s) = mapped s + (if list_ex isTransfer (pushed cb M i s) then 1 else 0)"
  by (cases cb) (simp_all add: processItem_def pushed_def Let_def split: option.splits)

lemma reportOf_pushed:
  "reportOf cb lf S T N i = pushed cb (createScoringMatrix [] S T) i (stateBefore cb lf S T N i)"
  by (simp add: reportOf_def stateBefore_Suc processItem_details)

lemma stateBefore_details_Suc:
  "details (stateBefore cb lf S T N (Suc i)) = details (stateBefore cb lf S T N i) @ reportOf cb lf S T N i"
  by (simp add: reportOf_pushed stateBefore_Suc processItem_details)

lemma stateBefore_details:
  "details (stateBefore cb lf S T N n) = concat (map (reportOf cb lf S T N) [0..<n])"
  by (induction n) (simp_all add: stateBefore_details_Suc)

lemma stateBefore_used_mono:
  "i \<le> n \<Longrightarrow> set (usedIndices (stateBefore cb lf S T N i)) \<subseteq> set (usedIndices (stateBefore cb lf S T N n))"
proof (induction n)
  case 0
  then show ?case by simp
next
  case (Suc n)
  show ?case
  proof (cases "i = Suc n")
    case True
    then show ?thesis by simp
  next
    case False
    with Suc.prems have "i \<le> n" by simp
    from Suc.IH[OF this] show ?thesis
      by (auto simp: stateBefore_Suc processItem_usedIndices)
  qed
qed

text \<open>The report of source item \<open>i\<close>, read off the state in which its iteration starts.\<close>

lemma report_outcome:
  "reportOf cb lf S T N i =
     (case selectedTarget cb lf S T N i of
        None \<Rightarrow> [if createScoringMatrix [] S T ! i = [] then NoSuitableTarget else AllTargetsUsed]
      | Some j \<Rightarrow>
          if length N \<le> j then [FailedUpdate j]
          else if node_locked (N ! j) then [LockedLayer j]
          else if node_rejectsWrite (N ! j) then [FailedUpdate j]
          else MappedText j (case find (\<lambda>e. targetIndex e = j) (createScoringMatrix [] S T ! i) of
                               Some e \<Rightarrow> score e | None \<Rightarrow> 0)
               # (if callThrows cb i (length S) (stateBefore cb lf S T N i)
                  then [FailedUpdate j] else []))"
proof -
  let ?M = "createScoringMatrix [] S T"
  let ?s = "stateBefore cb lf S T N i"
  show ?thesis
  proof (cases "?M ! i = []")
    case True
    then show ?thesis by (simp add: reportOf_pushed pushed_def selectedTarget_def)
  next
    case ne: False
    show ?thesis
    proof (cases "findTarget (usedIndices ?s) (?M ! i)")
      case None
      with ne show ?thesis by (simp add: reportOf_pushed pushed_def selectedTarget_def)
    next
      case (Some j)
      show ?thesis
      proof (cases "j < length N")
        case True
        with ne Some show ?thesis
          by (simp add: reportOf_pushed pushed_def selectedTarget_def stateBefore_nodes)
      next
        case False
        with ne Some show ?thesis
          by (simp add: reportOf_pushed pushed_def selectedTarget_def stateBefore_nodes)
      qed
    qed
  qed
qed

lemma selectedTarget_bound:
  assumes "i < length S" "selectedTarget cb lf S T N i = Some j"
  shows "j < length T" and "j \<notin> set (usedIndices (stateBefore cb lf S T N i))"
    and "0 < computeScore (S ! i) (T ! j)"
proof -
  let ?M = "createScoringMatrix [] S T"
  from assms(2) have ft: "findTarget (usedIndices (stateBefore cb lf S T N i)) (?M ! i) = Some j"
    by (auto simp: selectedTarget_def Let_def split: if_splits)
  from findTarget_Some[OF ft] obtain e where e: "e \<in> set (?M ! i)" "targetIndex e = j"
    and fresh: "j \<notin> set (usedIndices (stateBefore cb lf S T N i))" by blast
  from e(1) assms(1) have "e \<in> set (scoreRow [] T i (S ! i))" by (simp add: createScoringMatrix_nth)
  from scoreRow_entry[OF this] e(2) show "j < length T" "0 < computeScore (S ! i) (T ! j)" by auto
  from fresh show "j \<notin> set (usedIndices (stateBefore cb lf S T N i))" .
qed

subsection \<open>Evaluated runs\<close>

lemmas double_defs = percentOf_def mathRound_def timesDouble_def nearestDouble_def scaled_def
  roundHalfEven_def bitLength.simps Let_def

lemma percentOf_values:
  "percentOf 0 1 = 100" "percentOf 0 2 = 50" "percentOf 1 2 = 100" "percentOf 22 40 = 57"
  by (simp_all add: double_defs)

lemma percentOf_values_Suc:
  "percentOf 0 (Suc 0) = 100" "percentOf 0 (Suc (Suc 0)) = 50" "percentOf (Suc 0) (Suc (Suc 0)) = 100"
  using percentOf_values(1-3) by (simp_all add: numeral_2_eq_2)

lemmas model_defs = mapTextNodes_def ensureFontsLoaded_def uniqueFonts_def processMappings_def
    createScoringMatrix_def scoreRow_def computeScore_def pathMatch_def sameTruthyString_def fontScore_def
    contentScore_def calculatePathSimilarity_def processItem_def findTarget_def percentOf_values
    percentOf_values_Suc
    textItemOf_def layer_def truthySize_def familyOf_def quietCallback_def throwingCallback_def
    exMixedNode_def

lemmas example_defs = exSources_def exLockedNodes_def exLockedTargets_def exSpareNodes_def
    exSpareTargets_def exTwinNodes_def exTwinTargets_def

lemmas selection_defs = selectedTarget_def reportOf_def stateBefore_def initialState_def

lemma run_locked:
  "mapTextNodes (Some quietCallback) (\<lambda>f. True) exSources exLockedTargets exLockedNodes =
     Inr \<lparr> mapped = 0, skipped = 2, usedIndices = [], details = [LockedLayer 0, LockedLayer 0],
           targetNodes = exLockedNodes, notified = [100] \<rparr>"
  by (simp add: model_defs example_defs)

lemma run_spare:
  "mapTextNodes (Some quietCallback) (\<lambda>f. True) exSources exSpareTargets exSpareNodes =
     Inr \<lparr> mapped = 1, skipped = 1, usedIndices = [0],
           details = [MappedText 0 1850, LockedLayer 1],
           targetNodes = [layer ''Title'' ''Hello'' False, layer ''Other'' ''Moon'' True],
           notified = [100, 50] \<rparr>"
  by (simp add: model_defs example_defs)

lemma run_twin:
  "mapTextNodes (Some quietCallback) (\<lambda>f. True) exSources exTwinTargets exTwinNodes =
     Inr \<lparr> mapped = 2, skipped = 0, usedIndices = [0, 1],
           details = [MappedText 0 1850, MappedText 1 1850],
           targetNodes = [layer ''Title'' ''Hello'' False, layer ''Title'' ''Bye'' False],
           notified = [100, 50, 100] \<rparr>"
  by (simp add: model_defs example_defs)

lemma run_short:
  "mapTextNodes (Some quietCallback) (\<lambda>f. True) exSources [exTwinTargets ! 0] [exTwinNodes ! 0] =
     Inr \<lparr> mapped = 1, skipped = 1, usedIndices = [0],
           details = [MappedText 0 1850, AllTargetsUsed],
           targetNodes = [layer ''Title'' ''Hello'' False],
           notified = [100, 50] \<rparr>"
  by (simp add: model_defs example_defs)

lemma reports_twin:
  "reportOf (Some quietCallback) (\<lambda>f. True) exSources exTwinTargets exTwinNodes 0 = [MappedText 0 1850]"
  "reportOf (Some quietCallback) (\<lambda>f. True) exSources exTwinTargets exTwinNodes 1 = [MappedText 1 1850]"
  by (simp_all add: selection_defs model_defs example_defs)

lemma reports_spare:
  "reportOf (Some quietCallback) (\<lambda>f. True) exSources exSpareTargets exSpareNodes 0 = [MappedText 0 1850]"
  "reportOf (Some quietCallback) (\<lambda>f. True) exSources exSpareTargets exSpareNodes 1 = [LockedLayer 1]"
  by (simp_all add: selection_defs model_defs example_defs)

lemma reports_short:
  "reportOf (Some quietCallback) (\<lambda>f. True) exSources [exTwinTargets ! 0] [exTwinNodes ! 0] 0 = [MappedText 0 1850]"
  "reportOf (Some quietCallback) (\<lambda>f. True) exSources [exTwinTargets ! 0] [exTwinNodes ! 0] 1 = [AllTargetsUsed]"
  by (simp_all add: selection_defs model_defs example_defs)

lemma reports_locked:
  "reportOf (Some quietCallback) (\<lambda>f. True) exSources exLockedTargets exLockedNodes 0 = [LockedLayer 0]"
  "reportOf (Some quietCallback) (\<lambda>f. True) exSources exLockedTargets exLockedNodes 1 = [LockedLayer 0]"
  by (simp_all add: selection_defs model_defs example_defs)

subsection \<open>The claims on the assignment\<close>

lemma transfer_claims:
  assumes "MappedText j sc \<in> set (reportOf cb lf S T N i)"
  shows "selectedTarget cb lf S T N i = Some j"
    and "j \<notin> set (usedIndices (stateBefore cb lf S T N i))"
    and "j \<in> set (usedIndices (stateBefore cb lf S T N (Suc i)))"
proof -
  let ?M = "createScoringMatrix [] S T"
  let ?s = "stateBefore cb lf S T N i"
  from assms have p: "MappedText j sc \<in> set (pushed cb ?M i ?s)" by (simp add: reportOf_pushed)
  then have ne: "?M ! i \<noteq> []" by (auto simp: pushed_def)
  from p ne obtain j' where ft: "findTarget (usedIndices ?s) (?M ! i) = Some j'"
    by (cases "findTarget (usedIndices ?s) (?M ! i)") (auto simp: pushed_def)
  from p ne ft have ok: "j' = j" "\<not> length (targetNodes ?s) \<le> j" "\<not> node_locked (targetNodes ?s ! j)"
    "\<not> node_rejectsWrite (targetNodes ?s ! j)"
    by (auto simp: pushed_def split: if_splits)
  from ne ft ok(1) show "selectedTarget cb lf S T N i = Some j"
    by (simp add: selectedTarget_def)
  from findTarget_Some[OF ft] ok(1) show "j \<notin> set (usedIndices ?s)" by simp
  from ne ft ok show "j \<in> set (usedIndices (stateBefore cb lf S T N (Suc i)))"
    by (simp add: stateBefore_Suc processItem_usedIndices)
qed

text \<open>
  Claim C3. The assignment is injective on target indices: when the reports of two source
  items both hold a transfer, the two transfers name the same target index only if the
  two source items are the same. The report of the whole run is the concatenation of
  the reports of the source items, and the targets of its transfers, which are the used
  indices, are pairwise distinct.
\<close>

theorem mapTextNodes_injective:
  assumes "mapTextNodes cb lf S T N = Inr r"
    and "i1 < length S" "i2 < length S"
    and "MappedText j1 s1 \<in> set (reportOf cb lf S T N i1)"
    and "MappedText j2 s2 \<in> set (reportOf cb lf S T N i2)"
  shows "(j1 = j2 \<longleftrightarrow> i1 = i2)
         \<and> details r = concat (map (reportOf cb lf S T N) [0..<length S])
         \<and> mappedTargets (details r) = usedIndices r
         \<and> distinct (usedIndices r)"
proof -
  have r: "r = stateBefore cb lf S T N (length S)" by (rule mapTextNodes_Inr(1)[OF assms(1)])
  note c1 = transfer_claims[OF assms(4)] and c2 = transfer_claims[OF assms(5)]
  have apart: "j \<noteq> j'" if "i < i'"
    "j \<in> set (usedIndices (stateBefore cb lf S T N (Suc i)))"
    "j' \<notin> set (usedIndices (stateBefore cb lf S T N i'))" for i i' j j'
  proof -
    from that(1) have "Suc i \<le> i'" by simp
    from stateBefore_used_mono[OF this] that(2,3) show ?thesis by blast
  qed
  have "j1 = j2 \<longleftrightarrow> i1 = i2"
  proof (cases i1 i2 rule: linorder_cases)
    case less
    with apart[OF less c1(3) c2(2)] show ?thesis by simp
  next
    case equal
    with c1(1) c2(1) show ?thesis by simp
  next
    case greater
    with apart[OF greater c2(3) c1(2)] show ?thesis by auto
  qed
  moreover have "details r = concat (map (reportOf cb lf S T N) [0..<length S])"
    unfolding r by (rule stateBefore_details)
  moreover have "mappedTargets (details r) = usedIndices r" "distinct (usedIndices r)"
    unfolding r using stateBefore_used[of cb lf S T N "length S"] by simp_all
  ultimately show ?thesis by simp
qed

text \<open>
  An instance of claim C3 with two distinct source items: in the run of two source leaves
  over two unlocked target layers, source 0 is transferred to target 0 and source 1 to
  target 1.
\<close>

theorem mapTextNodes_injective_witness:
  "mapTextNodes (Some quietCallback) (\<lambda>f. True) exSources exTwinTargets exTwinNodes =
     Inr \<lparr> mapped = 2, skipped = 0, usedIndices = [0, 1],
           details = [MappedText 0 1850, MappedText 1 1850],
           targetNodes = [layer ''Title'' ''Hello'' False, layer ''Title'' ''Bye'' False],
           notified = [100, 50, 100] \<rparr>
   \<and> reportOf (Some quietCallback) (\<lambda>f. True) exSources exTwinTargets exTwinNodes 0 = [MappedText 0 1850]
   \<and> reportOf (Some quietCallback) (\<lambda>f. True) exSources exTwinTargets exTwinNodes 1 = [MappedText 1 1850]
   \<and> ((0 :: nat) = 1 \<longleftrightarrow> (0 :: nat) = 1)"
proof -
  have len: "(0 :: nat) < length exSources" "(1 :: nat) < length exSources"
    by (simp_all add: exSources_def)
  have m0: "MappedText 0 1850 \<in> set (reportOf (Some quietCallback) (\<lambda>f. True) exSources exTwinTargets exTwinNodes 0)"
    and m1: "MappedText 1 1850 \<in> set (reportOf (Some quietCallback) (\<lambda>f. True) exSources exTwinTargets exTwinNodes 1)"
    using reports_twin by auto
  from mapTextNodes_injective[OF run_twin len m0 m1] run_twin reports_twin show ?thesis
    by simp
qed

lemma notified_by_source:
  "notified (stateBefore cb lf S T N k)
     = notified (stateBefore cb lf S T N 0)
       @ (case cb of None \<Rightarrow> []
          | Some throws \<Rightarrow>
              map (\<lambda>i. percentOf i (length S))
                (filter (\<lambda>i. list_ex isTransfer (reportOf cb lf S T N i)) [0..<k]))"
proof (induction k)
  case 0
  show ?case by (cases cb) simp_all
next
  case (Suc k)
  then show ?case
    by (cases cb)
       (simp_all add: stateBefore_Suc[of _ _ _ _ _ k] processItem_notified
          reportOf_pushed[symmetric] createScoringMatrix_length del: stateBefore_0)
qed

lemma mapped_by_source:
  "mapped (stateBefore cb lf S T N k)
     = length (filter (\<lambda>i. list_ex isTransfer (reportOf cb lf S T N i)) [0..<k])"
proof (induction k)
  case 0
  show ?case by simp
next
  case (Suc k)
  show ?case
    by (simp add: stateBefore_Suc processItem_mapped Suc.IH reportOf_pushed[symmetric])
qed




lemma report_nonempty: "reportOf cb lf S T N i \<noteq> []"
  unfolding report_outcome by (simp split: option.splits)

lemma report_length:
  "length (reportOf cb lf S T N i)
     = (if list_ex isTransfer (reportOf cb lf S T N i)
          \<and> callThrows cb i (length S) (stateBefore cb lf S T N i) then 2 else 1)"
  unfolding report_outcome by (simp split: option.splits)

lemma report_quiet_length:
  "\<not> callThrows cb i (length S) (stateBefore cb lf S T N i) \<Longrightarrow> length (reportOf cb lf S T N i) = 1"
  by (simp add: report_length)

lemma details_quiet_prefix:
  "\<forall>k<i. \<not> callThrows cb k (length S) (stateBefore cb lf S T N k)
     \<Longrightarrow> length (details (stateBefore cb lf S T N i)) = i"
proof (induction i)
  case 0
  show ?case by simp
next
  case (Suc i)
  then show ?case
    by (simp add: stateBefore_details_Suc report_quiet_length del: stateBefore_0)
qed

lemma details_from:
  "i \<le> n \<Longrightarrow> \<exists>rest. details (stateBefore cb lf S T N n) = details (stateBefore cb lf S T N i) @ rest"
proof (induction n)
  case 0
  then show ?case by simp
next
  case (Suc n)
  show ?case
  proof (cases "i = Suc n")
    case True
    then show ?thesis by simp
  next
    case False
    with Suc.prems have "i \<le> n" by simp
    from Suc.IH[OF this] obtain rest
      where "details (stateBefore cb lf S T N n) = details (stateBefore cb lf S T N i) @ rest" ..
    then show ?thesis by (simp add: stateBefore_details_Suc del: stateBefore_0)
  qed
qed

lemma details_at:
  assumes "i < n" and "\<forall>k<i. \<not> callThrows cb k (length S) (stateBefore cb lf S T N k)"
  shows "details (stateBefore cb lf S T N n) ! i = hd (reportOf cb lf S T N i)"
proof -
  from assms(1) have "Suc i \<le> n" by simp
  from details_from[OF this] obtain rest
    where "details (stateBefore cb lf S T N n) = details (stateBefore cb lf S T N (Suc i)) @ rest" ..
  then have d: "details (stateBefore cb lf S T N n)
                  = details (stateBefore cb lf S T N i) @ reportOf cb lf S T N i @ rest"
    by (simp add: stateBefore_details_Suc del: stateBefore_0)
  have l: "length (details (stateBefore cb lf S T N i)) = i"
    by (rule details_quiet_prefix[OF assms(2)])
  from report_nonempty[of cb lf S T N i] obtain x xs where x: "reportOf cb lf S T N i = x # xs"
    by (cases "reportOf cb lf S T N i") simp_all
  show ?thesis unfolding d x using l nth_append_length[of "details (stateBefore cb lf S T N i)" x "xs @ rest"]
    by simp
qed

lemma used_below:
  "set (usedIndices (stateBefore cb lf S T N n)) \<subseteq> {..<length T}" if "n \<le> length S"
proof -
  have e: "targetIndex e \<in> {..<length T}" if "i < n" "e \<in> set (createScoringMatrix [] S T ! i)" for i e
  proof -
    from that(1) \<open>n \<le> length S\<close> have "i < length S" by simp
    with that(2) have "e \<in> set (scoreRow [] T i (S ! i))" by (simp add: createScoringMatrix_nth)
    from scoreRow_entry[OF this] show ?thesis by simp
  qed
  show ?thesis
    unfolding stateBefore_def
  proof (rule steps_used_bound[where B = "{..<length T}"])
    show "usedIndices (initialState (case ensureFontsLoaded cb lf N of Inr calls \<Rightarrow> calls | Inl e \<Rightarrow> []) N) = []"
      by simp
  next
    fix i e
    assume "i < n" "e \<in> set (createScoringMatrix [] S T ! i)"
    then show "targetIndex e \<in> {..<length T}" by (rule e)
  qed
qed

lemma mapped_bound:
  "mapped (stateBefore cb lf S T N (length S)) \<le> length T"
proof -
  let ?u = "usedIndices (stateBefore cb lf S T N (length S))"
  from stateBefore_used[of cb lf S T N "length S"]
  have d: "distinct ?u" and m: "mapped (stateBefore cb lf S T N (length S)) = length ?u" by simp_all
  from d have "length ?u = card (set ?u)" by (simp add: distinct_card)
  also have "\<dots> \<le> card {..<length T}"
    by (rule card_mono) (simp_all add: used_below)
  finally show ?thesis using m by simp
qed

lemma unmapped_length:
  "length (unmappedSources cb lf S T N) + length (transferredSources cb lf S T N) = length S"
  unfolding unmappedSources_def transferredSources_def
  using sum_length_filter_compl[of "\<lambda>i. list_ex isTransfer (reportOf cb lf S T N i)" "[0..<length S]"]
  by simp

lemma unmapped_report:
  assumes "\<not> list_ex isTransfer (reportOf cb lf S T N i)"
  shows "case selectedTarget cb lf S T N i of
           None \<Rightarrow> reportOf cb lf S T N i
                     = [if createScoringMatrix [] S T ! i = [] then NoSuitableTarget else AllTargetsUsed]
         | Some j \<Rightarrow> (length N \<le> j \<or> node_locked (N ! j) \<or> node_rejectsWrite (N ! j))
                     \<and> reportOf cb lf S T N i
                         = [if j < length N \<and> node_locked (N ! j) then LockedLayer j else FailedUpdate j]"
  using assms unfolding report_outcome
  by (cases "selectedTarget cb lf S T N i") (auto split: if_splits)

text \<open>
  Claim C6, amended. At most as many source leaves are transferred as there are target
  leaves, so at least \<open>length S - length T\<close> source leaves end the operation unmapped, and
  each of them is counted as skipped. An unmapped source leaf for which no target was
  selected is reported with the reason no-candidate (its score row is empty) or
  all-candidates-claimed; an unmapped source leaf for which a target was selected is one
  whose selected target is locked, rejects the write or has no layer, and it is reported
  with the reason target-locked or write-failed. When no target leaf is locked or rejects
  the write, every unmapped source leaf is reported no-candidate or all-candidates-claimed.
\<close>

theorem mapTextNodes_surplus:
  assumes "mapTextNodes cb lf S T N = Inr r"
  shows "mapped r = length (transferredSources cb lf S T N)
         \<and> mapped r \<le> length T
         \<and> length S - length T \<le> length (unmappedSources cb lf S T N)
         \<and> length (unmappedSources cb lf S T N) \<le> skipped r
         \<and> (\<forall>i \<in> set (unmappedSources cb lf S T N).
               case selectedTarget cb lf S T N i of
                 None \<Rightarrow> reportOf cb lf S T N i
                           = [if createScoringMatrix [] S T ! i = [] then NoSuitableTarget else AllTargetsUsed]
               | Some j \<Rightarrow> j < length T
                           \<and> (length N \<le> j \<or> node_locked (N ! j) \<or> node_rejectsWrite (N ! j))
                           \<and> reportOf cb lf S T N i
                               = [if j < length N \<and> node_locked (N ! j) then LockedLayer j else FailedUpdate j])
         \<and> ((\<forall>j<length T. j < length N \<and> \<not> node_locked (N ! j) \<and> \<not> node_rejectsWrite (N ! j)) \<longrightarrow>
              (\<forall>i \<in> set (unmappedSources cb lf S T N).
                 reportOf cb lf S T N i = [NoSuitableTarget] \<or> reportOf cb lf S T N i = [AllTargetsUsed]))"
proof -
  have r: "r = stateBefore cb lf S T N (length S)" by (rule mapTextNodes_Inr(1)[OF assms])
  have a: "mapped r = length (transferredSources cb lf S T N)"
    unfolding r transferredSources_def by (rule mapped_by_source)
  have b: "mapped r \<le> length T" unfolding r by (rule mapped_bound)
  from a b unmapped_length[of cb lf S T N]
  have c: "length S - length T \<le> length (unmappedSources cb lf S T N)" by simp
  from stateBefore_counts[of cb lf S T N "length S"]
  have "length S \<le> mapped r + skipped r" unfolding r by simp
  with a unmapped_length[of cb lf S T N]
  have d: "length (unmappedSources cb lf S T N) \<le> skipped r" by simp
  have e: "case selectedTarget cb lf S T N i of
             None \<Rightarrow> reportOf cb lf S T N i
                       = [if createScoringMatrix [] S T ! i = [] then NoSuitableTarget else AllTargetsUsed]
           | Some j \<Rightarrow> j < length T
                       \<and> (length N \<le> j \<or> node_locked (N ! j) \<or> node_rejectsWrite (N ! j))
                       \<and> reportOf cb lf S T N i
                           = [if j < length N \<and> node_locked (N ! j) then LockedLayer j else FailedUpdate j]"
    if "i \<in> set (unmappedSources cb lf S T N)" for i
  proof -
    from that have i: "i < length S" and n: "\<not> list_ex isTransfer (reportOf cb lf S T N i)"
      by (simp_all add: unmappedSources_def)
    show ?thesis
    proof (cases "selectedTarget cb lf S T N i")
      case None
      with unmapped_report[OF n] show ?thesis by simp
    next
      case (Some j)
      with unmapped_report[OF n] selectedTarget_bound(1)[OF i Some] show ?thesis by simp
    qed
  qed
  have f: "reportOf cb lf S T N i = [NoSuitableTarget] \<or> reportOf cb lf S T N i = [AllTargetsUsed]"
    if ok: "\<forall>j<length T. j < length N \<and> \<not> node_locked (N ! j) \<and> \<not> node_rejectsWrite (N ! j)"
      and i: "i \<in> set (unmappedSources cb lf S T N)" for i
  proof (cases "selectedTarget cb lf S T N i")
    case None
    with e[OF i] show ?thesis by (simp split: if_splits)
  next
    case (Some j)
    with e[OF i] have "j < length T" "length N \<le> j \<or> node_locked (N ! j) \<or> node_rejectsWrite (N ! j)"
      by simp_all
    with ok show ?thesis by auto
  qed
  from a b c d e f show ?thesis by blast
qed

text \<open>
  An instance with two source leaves and one target leaf, unlocked and writable: source 0
  is transferred, source 1 is the one leaf that ends unmapped and is reported with the
  reason all-candidates-claimed.
\<close>

theorem mapTextNodes_surplus_witness:
  "mapTextNodes (Some quietCallback) (\<lambda>f. True) exSources [exTwinTargets ! 0] [exTwinNodes ! 0] =
     Inr \<lparr> mapped = 1, skipped = 1, usedIndices = [0],
           details = [MappedText 0 1850, AllTargetsUsed],
           targetNodes = [layer ''Title'' ''Hello'' False],
           notified = [100, 50] \<rparr>
   \<and> length exSources - length [exTwinTargets ! 0] = 1
   \<and> unmappedSources (Some quietCallback) (\<lambda>f. True) exSources [exTwinTargets ! 0] [exTwinNodes ! 0] = [1]
   \<and> \<not> node_locked (exTwinNodes ! 0) \<and> \<not> node_rejectsWrite (exTwinNodes ! 0)
   \<and> reportOf (Some quietCallback) (\<lambda>f. True) exSources [exTwinTargets ! 0] [exTwinNodes ! 0] 1
       = [AllTargetsUsed]"
proof -
  have l: "[0..<length exSources] = [0, Suc 0]" by (simp add: exSources_def upt_rec)
  have u: "unmappedSources (Some quietCallback) (\<lambda>f. True) exSources [exTwinTargets ! 0] [exTwinNodes ! 0] = [1]"
    unfolding unmappedSources_def l using reports_short by auto
  have n: "\<not> node_locked (exTwinNodes ! 0)" "\<not> node_rejectsWrite (exTwinNodes ! 0)"
    by (simp_all add: exTwinNodes_def layer_def)
  have ok: "\<forall>j<length [exTwinTargets ! 0]. j < length [exTwinNodes ! 0]
              \<and> \<not> node_locked ([exTwinNodes ! 0] ! j) \<and> \<not> node_rejectsWrite ([exTwinNodes ! 0] ! j)"
    using n by simp
  from mapTextNodes_surplus[OF run_short] ok
  have "\<forall>i \<in> set (unmappedSources (Some quietCallback) (\<lambda>f. True) exSources [exTwinTargets ! 0] [exTwinNodes ! 0]).
          reportOf (Some quietCallback) (\<lambda>f. True) exSources [exTwinTargets ! 0] [exTwinNodes ! 0] i = [NoSuitableTarget]
          \<or> reportOf (Some quietCallback) (\<lambda>f. True) exSources [exTwinTargets ! 0] [exTwinNodes ! 0] i = [AllTargetsUsed]"
    by blast
  with u reports_short(2) run_short n show ?thesis by (simp add: exSources_def)
qed

text \<open>
  Claim C6 as stated fails in its reasons: with two source leaves and one target leaf that
  is locked, both source leaves select the locked target, end unmapped, and are reported
  with the reason target-locked.
\<close>

theorem surplus_reasons_counterexample:
  "mapTextNodes (Some quietCallback) (\<lambda>f. True) exSources [exLockedTargets ! 0] [exLockedNodes ! 0] =
     Inr \<lparr> mapped = 0, skipped = 2, usedIndices = [], details = [LockedLayer 0, LockedLayer 0],
           targetNodes = [exLockedNodes ! 0], notified = [100] \<rparr>
   \<and> length [exLockedTargets ! 0] < length exSources"
  by (simp add: model_defs example_defs)

lemma hd_report_locked:
  "hd (reportOf cb lf S T N i) = LockedLayer j \<longleftrightarrow> reportOf cb lf S T N i = [LockedLayer j]"
  unfolding report_outcome by (simp split: option.splits)

text \<open>
  Claim C5, amended. A locked target layer is never changed by the transfer. The report of
  a source item is the locked-layer entry for target \<open>j\<close> exactly when the target selected
  for it is \<open>j\<close> and that layer is locked; a locked layer that no source item selects does
  not appear in the report. As long as no call of the callback has thrown, the report of
  source item \<open>i\<close> is the entry at index \<open>i\<close> of the report of the run.
\<close>

theorem mapTextNodes_locked:
  assumes "mapTextNodes cb lf S T N = Inr r"
  shows "length (targetNodes r) = length N
         \<and> (\<forall>j<length N. node_locked (N ! j) \<longrightarrow> targetNodes r ! j = N ! j)
         \<and> (\<forall>i<length S. \<forall>j. reportOf cb lf S T N i = [LockedLayer j] \<longleftrightarrow>
               selectedTarget cb lf S T N i = Some j \<and> j < length N \<and> node_locked (N ! j))
         \<and> (\<forall>i<length S. (\<forall>k<i. \<not> callThrows cb k (length S) (stateBefore cb lf S T N k)) \<longrightarrow>
               (\<forall>j. details r ! i = LockedLayer j \<longleftrightarrow>
                  selectedTarget cb lf S T N i = Some j \<and> j < length N \<and> node_locked (N ! j)))
         \<and> details r = concat (map (reportOf cb lf S T N) [0..<length S])"
proof -
  have r: "r = stateBefore cb lf S T N (length S)" by (rule mapTextNodes_Inr(1)[OF assms])
  have a: "length (targetNodes r) = length N"
    unfolding r by (rule stateBefore_nodes(1))
  have b: "targetNodes r ! j = N ! j" if "j < length N" "node_locked (N ! j)" for j
    unfolding r using that by (intro stateBefore_nodes(4)) simp_all
  have c: "reportOf cb lf S T N i = [LockedLayer j] \<longleftrightarrow>
             selectedTarget cb lf S T N i = Some j \<and> j < length N \<and> node_locked (N ! j)"
    for i j
    unfolding report_outcome
    by (cases "selectedTarget cb lf S T N i") auto
  have d: "details r ! i = LockedLayer j \<longleftrightarrow>
             selectedTarget cb lf S T N i = Some j \<and> j < length N \<and> node_locked (N ! j)"
    if "i < length S" "\<forall>k<i. \<not> callThrows cb k (length S) (stateBefore cb lf S T N k)" for i j
    unfolding r details_at[OF that] hd_report_locked by (rule c)
  have e: "details r = concat (map (reportOf cb lf S T N) [0..<length S])"
    unfolding r by (rule stateBefore_details)
  from a b c d e show ?thesis by blast
qed

text \<open>
  An instance: two source leaves that both select target 0, which is locked, and are both
  reported with the locked-layer reason; the callback does not throw.
\<close>

theorem mapTextNodes_locked_witness:
  "mapTextNodes (Some quietCallback) (\<lambda>f. True) exSources exLockedTargets exLockedNodes =
     Inr \<lparr> mapped = 0, skipped = 2, usedIndices = [], details = [LockedLayer 0, LockedLayer 0],
           targetNodes = exLockedNodes, notified = [100] \<rparr>
   \<and> node_locked (exLockedNodes ! 0)
   \<and> reportOf (Some quietCallback) (\<lambda>f. True) exSources exLockedTargets exLockedNodes 1 = [LockedLayer 0]
   \<and> \<not> callThrows (Some quietCallback) 0 (length exSources)
         (stateBefore (Some quietCallback) (\<lambda>f. True) exSources exLockedTargets exLockedNodes 0)
   \<and> selectedTarget (Some quietCallback) (\<lambda>f. True) exSources exLockedTargets exLockedNodes 1 = Some 0"
proof -
  have len: "(1 :: nat) < length exSources" by (simp add: exSources_def)
  have lk: "node_locked (exLockedNodes ! 0)"
    by (simp add: exLockedNodes_def layer_def)
  have q: "\<not> callThrows (Some quietCallback) k n s" for k n s
    by (simp add: callThrows_def quietCallback_def)
  from mapTextNodes_locked[OF run_locked]
  have "\<forall>i<length exSources. \<forall>j.
          reportOf (Some quietCallback) (\<lambda>f. True) exSources exLockedTargets exLockedNodes i = [LockedLayer j] \<longleftrightarrow>
          selectedTarget (Some quietCallback) (\<lambda>f. True) exSources exLockedTargets exLockedNodes i = Some j
          \<and> j < length exLockedNodes \<and> node_locked (exLockedNodes ! j)"
    by blast
  with len have "reportOf (Some quietCallback) (\<lambda>f. True) exSources exLockedTargets exLockedNodes 1 = [LockedLayer 0] \<longleftrightarrow>
          selectedTarget (Some quietCallback) (\<lambda>f. True) exSources exLockedTargets exLockedNodes 1 = Some 0
          \<and> 0 < length exLockedNodes \<and> node_locked (exLockedNodes ! 0)"
    by blast
  with reports_locked(2)
  have s1: "selectedTarget (Some quietCallback) (\<lambda>f. True) exSources exLockedTargets exLockedNodes 1 = Some 0"
    by simp
  let ?r = "\<lparr> mapped = 0, skipped = 2, usedIndices = [], details = [LockedLayer 0, LockedLayer 0],
              targetNodes = exLockedNodes, notified = [100] \<rparr>"
  from mapTextNodes_locked[OF run_locked]
  have "\<forall>i<length exSources.
          (\<forall>k<i. \<not> callThrows (Some quietCallback) k (length exSources)
                    (stateBefore (Some quietCallback) (\<lambda>f. True) exSources exLockedTargets exLockedNodes k)) \<longrightarrow>
          (\<forall>j. details ?r ! i = LockedLayer j \<longleftrightarrow>
             selectedTarget (Some quietCallback) (\<lambda>f. True) exSources exLockedTargets exLockedNodes i = Some j
             \<and> j < length exLockedNodes \<and> node_locked (exLockedNodes ! j))"
    by blast
  with len q
  have "details ?r ! 1 = LockedLayer 0 \<longleftrightarrow>
          selectedTarget (Some quietCallback) (\<lambda>f. True) exSources exLockedTargets exLockedNodes 1 = Some 0
          \<and> 0 < length exLockedNodes \<and> node_locked (exLockedNodes ! 0)"
    by blast
  with s1 run_locked lk reports_locked(2) q show ?thesis by simp
qed

text \<open>
  Claim C5 as stated fails in its second half: a locked target layer that no source item
  selects is not reported. Here the only source item is transferred to target 0, and the
  locked target 1 is not mentioned in the report.
\<close>

theorem locked_unreported_counterexample:
  "mapTextNodes (Some quietCallback) (\<lambda>f. True) [exSources ! 0] exSpareTargets exSpareNodes =
     Inr \<lparr> mapped = 1, skipped = 0, usedIndices = [0],
           details = [MappedText 0 1850],
           targetNodes = [layer ''Title'' ''Hello'' False, layer ''Other'' ''Moon'' True],
           notified = [100, 100] \<rparr>
   \<and> node_locked (exSpareNodes ! 1)"
  by (simp add: model_defs example_defs)

lemma processItem_targetNodes:
  "M ! i \<noteq> [] \<Longrightarrow> findTarget (usedIndices s) (M ! i) = Some j \<Longrightarrow> j < length (targetNodes s) \<Longrightarrow>
   node_locked (targetNodes s ! j) \<or> node_rejectsWrite (targetNodes s ! j) \<Longrightarrow>
   targetNodes (processItem cb S M i s) = targetNodes s
   \<and> usedIndices (processItem cb S M i s) = usedIndices s"
  by (auto simp: processItem_def Let_def)

text \<open>
  Claim C10. When the target selected for a source item is locked, or rejects the write,
  the source item is reported as skipped, and the iteration neither claims that target
  nor any other: the set of used indices and the target layers are as before, so there
  is no fall-back to the next-best candidate. The target is never claimed, so a later
  source item may select it again. As long as no call of the callback has thrown, the
  report of source item \<open>i\<close> is the entry at index \<open>i\<close> of the report of the run.
\<close>

theorem skipped_target_stays_unclaimed:
  assumes "mapTextNodes cb lf S T N = Inr r"
    and "i < length S"
    and "selectedTarget cb lf S T N i = Some j"
    and "j < length N"
    and "node_locked (N ! j) \<or> node_rejectsWrite (N ! j)"
  shows "reportOf cb lf S T N i = [if node_locked (N ! j) then LockedLayer j else FailedUpdate j]
         \<and> ((\<forall>k<i. \<not> callThrows cb k (length S) (stateBefore cb lf S T N k)) \<longrightarrow>
              details r ! i = (if node_locked (N ! j) then LockedLayer j else FailedUpdate j))
         \<and> j \<notin> set (usedIndices r)
         \<and> usedIndices (stateBefore cb lf S T N (Suc i)) = usedIndices (stateBefore cb lf S T N i)
         \<and> targetNodes (stateBefore cb lf S T N (Suc i)) = targetNodes (stateBefore cb lf S T N i)"
proof -
  have r: "r = stateBefore cb lf S T N (length S)" by (rule mapTextNodes_Inr(1)[OF assms(1)])
  let ?M = "createScoringMatrix [] S T"
  let ?s = "stateBefore cb lf S T N i"
  have a: "reportOf cb lf S T N i = [if node_locked (N ! j) then LockedLayer j else FailedUpdate j]"
    unfolding report_outcome using assms(3-5) by auto
  have a': "details r ! i = (if node_locked (N ! j) then LockedLayer j else FailedUpdate j)"
    if "\<forall>k<i. \<not> callThrows cb k (length S) (stateBefore cb lf S T N k)"
    unfolding r details_at[OF assms(2) that] a by simp
  have b: "j \<notin> set (usedIndices r)"
    unfolding r using stateBefore_nodes(5)[of j cb lf S T N "length S"] assms(5) by blast
  from assms(3) have ne: "?M ! i \<noteq> []" and ft: "findTarget (usedIndices ?s) (?M ! i) = Some j"
    by (auto simp: selectedTarget_def Let_def split: if_splits)
  have "j < length (targetNodes ?s)"
    "node_locked (targetNodes ?s ! j) \<or> node_rejectsWrite (targetNodes ?s ! j)"
    using assms(4,5) by (simp_all add: stateBefore_nodes del: stateBefore_0)
  from processItem_targetNodes[OF ne ft this]
  have c: "usedIndices (stateBefore cb lf S T N (Suc i)) = usedIndices ?s"
    "targetNodes (stateBefore cb lf S T N (Suc i)) = targetNodes ?s"
    by (simp_all add: stateBefore_Suc)
  from a a' b c show ?thesis by simp
qed

text \<open>
  An instance: two distinct source leaves select the same locked target 0 as their best
  candidate, each is reported as skipped, and nothing is claimed, although the unlocked
  target 1 is a candidate of the second source leaf (score 325).
\<close>

theorem skipped_target_stays_unclaimed_witness:
  "mapTextNodes (Some quietCallback) (\<lambda>f. True) exSources exLockedTargets exLockedNodes =
     Inr \<lparr> mapped = 0, skipped = 2, usedIndices = [], details = [LockedLayer 0, LockedLayer 0],
           targetNodes = exLockedNodes, notified = [100] \<rparr>
   \<and> selectedTarget (Some quietCallback) (\<lambda>f. True) exSources exLockedTargets exLockedNodes 0 = Some 0
   \<and> selectedTarget (Some quietCallback) (\<lambda>f. True) exSources exLockedTargets exLockedNodes 1 = Some 0
   \<and> reportOf (Some quietCallback) (\<lambda>f. True) exSources exLockedTargets exLockedNodes 0 = [LockedLayer 0]
   \<and> reportOf (Some quietCallback) (\<lambda>f. True) exSources exLockedTargets exLockedNodes 1 = [LockedLayer 0]
   \<and> \<not> callThrows (Some quietCallback) 0 (length exSources)
         (stateBefore (Some quietCallback) (\<lambda>f. True) exSources exLockedTargets exLockedNodes 0)
   \<and> node_locked (exLockedNodes ! 0)
   \<and> \<not> node_locked (exLockedNodes ! 1)
   \<and> computeScore (exSources ! 1) (exLockedTargets ! 1) = 325
   \<and> usedIndices (stateBefore (Some quietCallback) (\<lambda>f. True) exSources exLockedTargets exLockedNodes 2) = []"
proof -
  have len: "(1 :: nat) < length exSources" "(0 :: nat) < length exLockedNodes"
    by (simp_all add: example_defs)
  have lk: "node_locked (exLockedNodes ! 0) \<or> node_rejectsWrite (exLockedNodes ! 0)"
    by (simp add: example_defs layer_def)
  have s0: "selectedTarget (Some quietCallback) (\<lambda>f. True) exSources exLockedTargets exLockedNodes 0 = Some 0"
    by (simp add: selection_defs model_defs example_defs)
  have s1: "selectedTarget (Some quietCallback) (\<lambda>f. True) exSources exLockedTargets exLockedNodes 1 = Some 0"
    by (simp add: selection_defs model_defs example_defs)
  have sc: "computeScore (exSources ! 1) (exLockedTargets ! 1) = 325"
    "node_locked (exLockedNodes ! 0)" "\<not> node_locked (exLockedNodes ! 1)"
    by (simp_all add: model_defs example_defs)
  have u2: "stateBefore (Some quietCallback) (\<lambda>f. True) exSources exLockedTargets exLockedNodes 2
              = stateBefore (Some quietCallback) (\<lambda>f. True) exSources exLockedTargets exLockedNodes (Suc 1)"
    by (simp add: numeral_2_eq_2)
  have q: "\<forall>k<1. \<not> callThrows (Some quietCallback) k (length exSources)
             (stateBefore (Some quietCallback) (\<lambda>f. True) exSources exLockedTargets exLockedNodes k)"
    by (simp add: callThrows_def quietCallback_def)
  from skipped_target_stays_unclaimed[OF run_locked len(1) s1 len(2) lk] q
  have "reportOf (Some quietCallback) (\<lambda>f. True) exSources exLockedTargets exLockedNodes 1 = [LockedLayer 0]"
    and "[LockedLayer 0, LockedLayer 0] ! 1 = LockedLayer (0 :: nat)"
    and "usedIndices (stateBefore (Some quietCallback) (\<lambda>f. True) exSources exLockedTargets exLockedNodes (Suc 1))
         = usedIndices (stateBefore (Some quietCallback) (\<lambda>f. True) exSources exLockedTargets exLockedNodes 1)"
    using sc(2) by simp_all
  moreover have "usedIndices (stateBefore (Some quietCallback) (\<lambda>f. True) exSources exLockedTargets exLockedNodes 1) = []"
    by (simp add: selection_defs model_defs example_defs)
  ultimately show ?thesis using run_locked s0 s1 sc reports_locked(1) q unfolding u2 by simp
qed

text \<open>
  The counters of a run: every source item is counted once, and a transferred source item
  whose call of the callback throws is counted a second time, as skipped.
\<close>

lemma mapTextNodes_accounting:
  assumes "mapTextNodes cb lf S T N = Inr r"
  shows "mapped r + skipped r
           = length S + length (filter (\<lambda>i. callThrows cb i (length S) (stateBefore cb lf S T N i))
                                  (transferredSources cb lf S T N))"
proof -
  have r: "r = stateBefore cb lf S T N (length S)" by (rule mapTextNodes_Inr(1)[OF assms])
  have "length (details (stateBefore cb lf S T N n))
          = n + length (filter (\<lambda>i. callThrows cb i (length S) (stateBefore cb lf S T N i))
                          (filter (\<lambda>i. list_ex isTransfer (reportOf cb lf S T N i)) [0..<n]))" for n
  proof (induction n)
    case 0
    show ?case by simp
  next
    case (Suc n)
    then show ?case
      by (simp add: stateBefore_details_Suc report_length del: stateBefore_0)
  qed
  from this[of "length S"] stateBefore_counts[of cb lf S T N "length S"]
  show ?thesis unfolding r transferredSources_def by simp
qed


text \<open>
  Claim C7, amended. After a clear operation that succeeds, the global payload and the
  stored payload are both empty. A subsequent paste raises an error and leaves the
  session and the selected nodes as they were, whatever is selected. The selection is
  validated first: with nothing selected, with more than one node selected, or with one
  node selected that is not a frame, the error is the selection error; with exactly one
  frame selected it is "No text copied. Please copy text from a frame first.".
\<close>

theorem paste_after_clear:
  "copyPayload (snd (handleClear False st)) = None
   \<and> stored (snd (handleClear False st)) = None
   \<and> handlePaste readFails loadFont selection (snd (handleClear False st))
       = (Inl (Error
                (if selection = [] then ''Please select a frame to work with''
                 else if length selection > 1 then ''Please select only one frame at a time''
                 else case selection ! 0 of
                        FRAME cs \<Rightarrow> ''No text copied. Please copy text from a frame first.''
                      | _ \<Rightarrow> ''Selected item must be a Frame. Please select a frame and try again.'')),
          snd (handleClear False st), selection)"
proof -
  let ?st1 = "snd (handleClear False st)"
  have a: "copyPayload ?st1 = None" "stored ?st1 = None"
    by (simp_all add: handleClear_def Let_def)
  have b: "handlePaste readFails loadFont selection ?st1
       = (Inl (Error
                (if selection = [] then ''Please select a frame to work with''
                 else if length selection > 1 then ''Please select only one frame at a time''
                 else case selection ! 0 of
                        FRAME cs \<Rightarrow> ''No text copied. Please copy text from a frame first.''
                      | _ \<Rightarrow> ''Selected item must be a Frame. Please select a frame and try again.'')),
          ?st1, selection)"
    using a by (simp add: handlePaste_def validateSingleFrameSelection_def split: SceneNode.splits)
  from a b show ?thesis by simp
qed

text \<open>
  Claim C7 as stated fails: after a clear, a paste attempt with nothing selected raises the
  selection error, not the no-payload error.
\<close>

theorem paste_after_clear_counterexample:
  "handlePaste False (\<lambda>f. True) []
     (snd (handleClear False \<lparr> copyPayload = None, stored = None, posted = [] \<rparr>))
   = (Inl (Error ''Please select a frame to work with''),
      \<lparr> copyPayload = None, stored = None, posted = [CLEAR_SUCCESS] \<rparr>, [])"
  by (simp add: handlePaste_def handleClear_def validateSingleFrameSelection_def)


lemma exRival_indexed:
  "items (fst (indexTextNodes (FRAME (map TEXT exRivalNodes)))) = exRivalTargets"
  "nodes (fst (indexTextNodes (FRAME (map TEXT exRivalNodes)))) = exRivalNodes"
  by (simp_all add: indexTextNodes_def visit_def pushChildren_def exRivalTargets_def exRivalNodes_def Let_def)

lemma exStyled_indexed:
  "items (fst (indexTextNodes (FRAME [TEXT (exStyledNode ''Title''), TEXT (exStyledNode ''Body'')])))
     = [exStyled [0] ''Title'', exStyled [1] ''Body'']"
  by (simp add: indexTextNodes_def visit_def pushChildren_def exStyledNode_def exStyled_def
        textItemOf_def Let_def)

text \<open>
  Claim C1 fails on the code. The source frame and the target frame both have two text
  layers, at paths \<open>[0]\<close> and \<open>[1]\<close>. Target 1 shares name, style and font with
  source 0 and scores 1100 for it, target 0 shares only the path and scores 1050; source 0
  is therefore transferred to target 1, whose path differs from its own, and source 1,
  whose only candidate is target 1, is left without a target. The comment of line 1000
  calls the path match the signal of highest priority.
\<close>

theorem identical_structure_counterexample:
  "items (fst (indexTextNodes (FRAME [TEXT (exStyledNode ''Title''), TEXT (exStyledNode ''Body'')])))
     = [exStyled [0] ''Title'', exStyled [1] ''Body'']
   \<and> items (fst (indexTextNodes (FRAME (map TEXT exRivalNodes)))) = exRivalTargets
   \<and> nodes (fst (indexTextNodes (FRAME (map TEXT exRivalNodes)))) = exRivalNodes
   \<and> map path exRivalTargets = map path [exStyled [0] ''Title'', exStyled [1] ''Body'']
   \<and> mapTextNodes (Some quietCallback) (\<lambda>f. True) [exStyled [0] ''Title'', exStyled [1] ''Body'']
        exRivalTargets exRivalNodes
     = Inr \<lparr> mapped = 1, skipped = 1, usedIndices = [1],
             details = [MappedText 1 1100, AllTargetsUsed],
             targetNodes = [exRivalNodes ! 0, (exRivalNodes ! 1)\<lparr> node_characters := ''Hello'' \<rparr>],
             notified = [50, 100, 50] \<rparr>"
proof -
  have p: "map path exRivalTargets = map path [exStyled [0] ''Title'', exStyled [1] ''Body'']"
    by (simp add: exRivalTargets_def exStyled_def textItemOf_def)
  have run: "mapTextNodes (Some quietCallback) (\<lambda>f. True) [exStyled [0] ''Title'', exStyled [1] ''Body'']
        exRivalTargets exRivalNodes
     = Inr \<lparr> mapped = 1, skipped = 1, usedIndices = [1],
             details = [MappedText 1 1100, AllTargetsUsed],
             targetNodes = [exRivalNodes ! 0, (exRivalNodes ! 1)\<lparr> node_characters := ''Hello'' \<rparr>],
             notified = [50, 100, 50] \<rparr>"
    by (simp add: model_defs exStyled_def exRivalTargets_def exRivalNodes_def)
  show ?thesis
    by (intro conjI exRival_indexed exStyled_indexed p run)
qed

end
